theory Spec2Isabelle
  imports Main
begin

section \<open>Parser core (lib/Parser/Parser.ts)\<close>

text \<open>
  A parser is a function from the remaining input to \<open>Either ParseError [value, rest]\<close>.
  \<open>Inl\<close> is \<open>E.left\<close>, \<open>Inr\<close> is \<open>E.right\<close>. The outer \<open>option\<close> records whether the call
  returns at all: \<open>many\<close> is a \<open>while\<close> loop and \<open>manyTill\<close> a recursion, and both run forever
  on a parser that succeeds without consuming input; \<open>None\<close> is that outcome.
  Strings are lists of characters; one \<open>char\<close> stands for one code unit \<open>x[0]\<close>.
\<close>

type_synonym ParseError = string
type_synonym 'a Reply = "ParseError + 'a \<times> string"
type_synonym 'a Parser = "string \<Rightarrow> 'a Reply option"

definition p_of :: "'a \<Rightarrow> 'a Parser" where
  "p_of a x = Some (Inr (a, x))"

definition p_map :: "'a Parser \<Rightarrow> ('a \<Rightarrow> 'b) \<Rightarrow> 'b Parser" where
  "p_map fa f x =
     (case fa x of
        None \<Rightarrow> None
      | Some (Inl e) \<Rightarrow> Some (Inl e)
      | Some (Inr (v1, v2)) \<Rightarrow> Some (Inr (f v1, v2)))"

definition p_chain :: "'a Parser \<Rightarrow> ('a \<Rightarrow> 'b Parser) \<Rightarrow> 'b Parser" where
  "p_chain fa f x =
     (case fa x of
        None \<Rightarrow> None
      | Some (Inl e) \<Rightarrow> Some (Inl e)
      | Some (Inr (a, rest)) \<Rightarrow> f a rest)"

text \<open>\<open>_alt\<close>: the second parser is a thunk, and runs only when the first one fails.\<close>

definition p_alt :: "'a Parser \<Rightarrow> (unit \<Rightarrow> 'a Parser) \<Rightarrow> 'a Parser" where
  "p_alt fa that x =
     (case fa x of
        None \<Rightarrow> None
      | Some (Inl e) \<Rightarrow> that () x
      | Some (Inr r) \<Rightarrow> Some (Inr r))"

definition p_zero :: "'a Parser" where
  "p_zero x = Some (Inl ''zero'')"

text \<open>
  \<open>many\<close>: \<open>e = p(rest); while (!isLeft(e) && rest.length > 0) { push; rest = next; e = p(rest) }\<close>.
  \<open>many_loop\<close> is the loop, entered with the accumulated values, \<open>rest\<close> and the current \<open>e\<close>.
\<close>

partial_function (option) many_loop ::
  "'a Parser \<Rightarrow> 'a list \<Rightarrow> string \<Rightarrow> 'a Reply \<Rightarrow> 'a list Reply option" where
  "many_loop p as rest e =
     (case e of
        Inl err \<Rightarrow> Some (Inr (as, rest))
      | Inr (a, next) \<Rightarrow>
          if rest = [] then Some (Inr (as, rest))
          else (case p next of
                  None \<Rightarrow> None
                | Some e' \<Rightarrow> many_loop p (as @ [a]) next e'))"

declare many_loop.simps [code]

definition many :: "'a Parser \<Rightarrow> 'a list Parser" where
  "many p x = (case p x of None \<Rightarrow> None | Some e \<Rightarrow> many_loop p [] x e)"

section \<open>Combinators (lib/Parser/Combinator.ts)\<close>

definition many1 :: "'a Parser \<Rightarrow> 'a list Parser" where
  "many1 p x =
     (case p x of
        None \<Rightarrow> None
      | Some (Inl e) \<Rightarrow> Some (Inl e)
      | Some (Inr (h, rest)) \<Rightarrow>
          (case many p rest of
             None \<Rightarrow> None
           | Some (Inl e) \<Rightarrow> Some (Inl e)
           | Some (Inr (t, rest')) \<Rightarrow> Some (Inr (h # t, rest'))))"

text \<open>
  \<open>Array.prototype.reduceRight(callback, initialValue)\<close>: the callback receives the
  accumulator first and the current element second, and the elements are visited from the
  last one to the first.
\<close>

fun reduceRight :: "('b \<Rightarrow> 'a \<Rightarrow> 'b) \<Rightarrow> 'a list \<Rightarrow> 'b \<Rightarrow> 'b" where
  "reduceRight f [] init = init"
| "reduceRight f (x # xs) init = f (reduceRight f xs init) x"

definition choice :: "'a Parser list \<Rightarrow> 'a Parser" where
  "choice ps = reduceRight (\<lambda>a b. p_alt a (\<lambda>_. b)) ps p_zero"

definition sepBy1 :: "'a Parser \<Rightarrow> 'b Parser \<Rightarrow> 'a list Parser" where
  "sepBy1 p sep =
     p_chain p (\<lambda>x. p_chain (many (p_chain sep (\<lambda>_. p))) (\<lambda>xs. p_of (x # xs)))"

definition sepBy :: "'a Parser \<Rightarrow> 'b Parser \<Rightarrow> 'a list Parser" where
  "sepBy p sep = p_alt (sepBy1 p sep) (\<lambda>_. p_of [])"

definition option_p :: "'a \<Rightarrow> 'a Parser \<Rightarrow> 'a Parser" where
  "option_p a p = p_alt p (\<lambda>_. p_of a)"

definition flat :: "string list Parser \<Rightarrow> string Parser" where
  "flat p = p_map p concat"

text \<open>
  \<open>manyTill(end)(p)\<close>: \<open>scan = alt(end >> [], () => p >>= x => scan >>= xs => [x, ...xs])\<close>.
  The recursion is written out by cases; \<open>manyTill_alt\<close> below restates it with the combinators.
\<close>

partial_function (option) manyTill :: "'b Parser \<Rightarrow> 'a Parser \<Rightarrow> string \<Rightarrow> 'a list Reply option" where
  "manyTill endp p x =
     (case endp x of
        None \<Rightarrow> None
      | Some (Inr (b, rest)) \<Rightarrow> Some (Inr ([], rest))
      | Some (Inl e) \<Rightarrow>
          (case p x of
             None \<Rightarrow> None
           | Some (Inl e') \<Rightarrow> Some (Inl e')
           | Some (Inr (a, rest)) \<Rightarrow>
               Option.bind (manyTill endp p rest)
                 (\<lambda>r. case r of
                        Inl e'' \<Rightarrow> Some (Inl e'')
                      | Inr (as, rest') \<Rightarrow> Some (Inr (a # as, rest')))))"

declare manyTill.simps [code]

definition lookahead :: "'a Parser \<Rightarrow> 'a Parser" where
  "lookahead p s =
     (case p s of
        None \<Rightarrow> None
      | Some (Inl e) \<Rightarrow> Some (Inl e)
      | Some (Inr (a, rest)) \<Rightarrow> Some (Inr (a, s)))"

definition expected :: "string \<Rightarrow> 'a Parser \<Rightarrow> 'a Parser" where
  "expected msg p x =
     (case p x of
        None \<Rightarrow> None
      | Some (Inl err) \<Rightarrow> Some (Inl (''Expected '' @ msg @ '' but: '' @ err))
      | Some (Inr r) \<Rightarrow> Some (Inr r))"

section \<open>String parsers (lib/Parser/String.ts)\<close>

text \<open>
  \<open>satisfy(desc)(pred)\<close>: the predicate is applied to the first code unit \<open>x[0]\<close>, and the
  value returned is the one-character string \<open>x[0]\<close>.
\<close>

definition satisfy :: "string \<Rightarrow> (char \<Rightarrow> bool) \<Rightarrow> string Parser" where
  \<open>satisfy desc pred x =
     (case x of
        [] \<Rightarrow> Some (Inl (''Expected '' @ desc @ '' but got EOF''))
      | c # cs \<Rightarrow>
          if pred c then Some (Inr ([c], cs))
          else Some (Inl (''Expected '' @ desc @ '', but got '' @ [CHR 0x27, c, CHR 0x27])))\<close>

definition oneOf :: "string \<Rightarrow> string Parser" where
  \<open>oneOf cs = satisfy (''one of "'' @ cs @ ''"'') (\<lambda>x. x \<in> set cs)\<close>

definition noneOf :: "string \<Rightarrow> string Parser" where
  \<open>noneOf cs = satisfy (''none of "'' @ cs @ ''"'') (\<lambda>x. x \<notin> set cs)\<close>

definition char_p :: "string \<Rightarrow> string Parser" where
  \<open>char_p ch = satisfy (''character '' @ [CHR 0x27] @ ch @ [CHR 0x27]) (\<lambda>x. [x] = ch)\<close>

definition anyChar :: "string Parser" where
  "anyChar = satisfy ''anything'' (\<lambda>x. True)"

definition startsWith :: "string \<Rightarrow> string \<Rightarrow> bool" where
  "startsWith x s = (take (length s) x = s)"

definition str :: "string \<Rightarrow> string Parser" where
  \<open>str s x =
     (if startsWith x s then Some (Inr (s, drop (length s) x))
      else Some (Inl (''Expected "'' @ s @ ''"'')))\<close>

definition whitespace :: "string Parser" where
  "whitespace = oneOf [CHR 0x0A, CHR 0x09, CHR 0x0D, CHR '' '']"

definition whitespaces :: "string Parser" where
  "whitespaces = flat (many whitespace)"

definition newline :: "string Parser" where
  "newline = choice [char_p [CHR 0x0A], str [CHR 0x0D, CHR 0x0A]]"

definition eof :: "string Parser" where
  "eof s = (if s = [] then Some (Inr ([], s)) else Some (Inl ''Expected EOF''))"

definition digit :: "string Parser" where
  "digit = oneOf ''0123456789''"

section \<open>Protocol types (lib/UCI/Types.ts)\<close>

text \<open>
  A JavaScript \<open>number\<close>. The grammar makes numbers in two ways. \<open>+x\<close> on a run of decimal
  digits gives an integer, held exactly as \<open>Num\<close>; JavaScript holds it exactly as well while
  it is below \<open>2^53\<close>, which a run of at most fifteen digits always is (the theorems below
  that read arbitrary digit runs bound their length by fifteen). \<open>parseFloat(text)\<close> is kept
  as the text it was asked to read: \<open>ParseFloat t\<close> is the number that \<open>parseFloat\<close> returns
  on \<open>t\<close>.
\<close>

datatype jsnum = Num int | ParseFloat string

datatype UCIRegister = Later | Reg_Name string | Reg_Code string

datatype UCIPosition = FEN string | StartPos

datatype UCIScore = Centipawns jsnum | Score_Mate jsnum | Lowerbound | Upperbound

datatype UCIInfo =
    Info_Depth jsnum
  | SelDepth jsnum
  | Info_Time jsnum
  | Info_Nodes jsnum
  | Preview "string list"
  | MultiPreview jsnum
  | Score "UCIScore list"
  | CurrMove string
  | CurrMoveNumber jsnum
  | HashFull jsnum
  | NodesPerSecond jsnum
  | TableBaseHits jsnum
  | ShredderBaseHits jsnum
  | CPULoad jsnum
  | Info_String string
  | Refutation "string list"
  | CurrLine jsnum "string list"

datatype UCIGoParameter =
    SearchMoves "string list"
  | Ponder
  | WTime jsnum
  | BTime jsnum
  | WInc jsnum
  | BInc jsnum
  | MovesToGo jsnum
  | Depth jsnum
  | Nodes jsnum
  | Mate jsnum
  | MoveTime jsnum
  | Infinite

text \<open>Optional fields (\<open>on?\<close>, \<open>value?\<close>) are \<open>option\<close>s: \<open>None\<close> is \<open>undefined\<close>.\<close>

datatype UCIEngineCommand =
    UCI
  | Debug "bool option"
  | IsReady
  | SetOption string "string option"
  | Register UCIRegister
  | UCINewGame
  | Position UCIPosition "string list"
  | Go "UCIGoParameter list"
  | Stop
  | Ponderhit
  | Quit

datatype UCIId = Id_Name string | Id_Author string

datatype OptionType = Check | Spin | Combo | Button | String

record UCIOption =
  opt_name :: string
  opt_type :: OptionType
  opt_default :: "string option"
  opt_min :: "string option"
  opt_max :: "string option"
  opt_var :: "string option"

datatype CopyStatus = Copy_ok | Copy_error

datatype RegStatus = Reg_ok | Reg_checking | Reg_error

datatype UCIGUICommand =
    Id UCIId
  | UCIOk
  | ReadyOk
  | BestMove string "string option"
  | CopyProtection CopyStatus
  | Registration RegStatus
  | Info "UCIInfo list"
  | Option UCIOption

section \<open>Numbers as text\<close>

text \<open>
  \<open>+x\<close> on a run of decimal digits (the only strings \<open>natural\<close> passes to it), \<open>-n\<close>, and the
  template literal \<open>`${n}`\<close> on an integer: its decimal digits, with a minus sign when negative.
  Negation and printing are given for integers only: the grammar applies them to the values
  of \<open>natural\<close> alone, and the only number the handler sends is the score \<open>1\<close>.
\<close>

definition digitValue :: "char \<Rightarrow> nat" where
  "digitValue c = of_char c - 48"

definition unaryPlus :: "string \<Rightarrow> jsnum" where
  "unaryPlus x = Num (int (foldl (\<lambda>n c. 10 * n + digitValue c) 0 x))"

fun negate :: "jsnum \<Rightarrow> jsnum" where
  "negate (Num n) = Num (- n)"

fun showNat :: "nat \<Rightarrow> string" where
  "showNat n =
     (if n < 10 then [char_of (48 + n)]
      else showNat (n div 10) @ [char_of (48 + n mod 10)])"

declare showNat.simps [simp del]

fun toString :: "jsnum \<Rightarrow> string" where
  "toString (Num n) = (if n < 0 then ''-'' @ showNat (nat (- n)) else showNat (nat n))"

section \<open>Command grammar (lib/UCI/Parser.ts)\<close>

definition always :: "'a \<Rightarrow> 'b \<Rightarrow> 'a" where
  "always a = (\<lambda>_. a)"

definition on :: "bool Parser" where
  "on = p_map (str ''on'') (always True)"

definition off :: "bool Parser" where
  "off = p_map (str ''false'') (always False)"

definition onOff :: "bool Parser" where
  "onOff = choice [on, off]"

definition word :: "string Parser" where
  "word = flat (manyTill (lookahead (choice [whitespace, eof])) (noneOf '' ''))"

definition natural :: "jsnum Parser" where
  "natural = expected ''natural number'' (p_map (flat (many1 digit)) unaryPlus)"

definition int_p :: "jsnum Parser" where
  "int_p =
     expected ''integer''
       (p_chain (option_p ''+'' (oneOf ''-+'')) (\<lambda>sign.
        p_chain natural (\<lambda>n.
        p_of (if sign = ''+'' then n else negate n))))"

definition floating :: "jsnum Parser" where
  "floating =
     expected ''floating point number''
       (p_chain int_p (\<lambda>left.
        p_chain (char_p ''.'') (\<lambda>dot.
        p_chain natural (\<lambda>right.
        p_of (ParseFloat (toString left @ dot @ toString right))))))"

definition numeric :: "jsnum Parser" where
  "numeric = choice [floating, natural]"



function skipGarbage :: "'a Parser \<Rightarrow> 'a Parser" where
  "skipGarbage p x =
     (case p x of
        None \<Rightarrow> None
      | Some (Inr r) \<Rightarrow> Some (Inr r)
      | Some (Inl e) \<Rightarrow>
          (case anyChar x of
             None \<Rightarrow> None
           | Some (Inl e') \<Rightarrow> Some (Inl e')
           | Some (Inr (a, rest)) \<Rightarrow> skipGarbage p rest))"
  by pat_completeness auto
termination
proof (relation "measure (\<lambda>(p, x). length x)")
  show "wf (measure (\<lambda>(p :: 'a Parser, x). length x))"
    by simp
next
  fix p :: "'a Parser" and x :: string and r e r' y a rest
  assume "anyChar x = Some r'" and "r' = Inr y" and "(a, rest) = y"
  then have "anyChar x = Some (Inr (a, rest))"
    by simp
  then have "length rest < length x"
    by (cases x) (simp_all add: anyChar_def satisfy_def)
  then show "((p, rest), (p, x)) \<in> measure (\<lambda>(p, x). length x)"
    by simp
qed

declare skipGarbage.simps [simp del]

definition move :: "string Parser" where
  "move = word"

definition moves :: "string list Parser" where
  "moves = sepBy move whitespaces"

definition uciSetOptionValue :: "string Parser" where
  "uciSetOptionValue =
     p_chain (str ''value'') (\<lambda>_.
     p_chain whitespaces (\<lambda>_.
     p_chain (flat (manyTill (choice [newline, eof]) (noneOf [CHR 0x0A])))
       (\<lambda>v. p_of v)))"

definition uciSetOptionId :: "string Parser" where
  "uciSetOptionId =
     p_chain (str ''name'') (\<lambda>_.
     p_chain whitespaces (\<lambda>_.
     p_chain
       (flat (manyTill
          (lookahead (choice
             [p_chain whitespaces (always (str ''value'')), newline, eof]))
          (noneOf [CHR 0x0A])))
       (\<lambda>i. p_of i)))"

definition uciPositionFen :: "UCIPosition Parser" where
  "uciPositionFen =
     p_chain (str ''fen'') (\<lambda>_.
     p_chain whitespaces (\<lambda>_.
     p_chain
       (flat (manyTill (lookahead (choice [str ''moves'', newline, eof])) (noneOf [CHR 0x0A])))
       (\<lambda>fen. p_of (FEN fen))))"

definition uciPositionStartPos :: "UCIPosition Parser" where
  "uciPositionStartPos = p_map (str ''startpos'') (always StartPos)"

definition uciPositionMoves :: "string list Parser" where
  "uciPositionMoves =
     p_chain (str ''moves'') (\<lambda>_.
     p_chain whitespaces (\<lambda>_.
     p_chain moves (\<lambda>ms. p_of ms)))"

definition uciRegisterLater :: "UCIRegister Parser" where
  "uciRegisterLater = p_map (str ''later'') (always Later)"

definition uciRegisterName :: "UCIRegister Parser" where
  "uciRegisterName =
     p_chain (str ''name'') (\<lambda>_.
     p_chain whitespaces (\<lambda>_.
     p_chain (flat (manyTill (choice [newline, eof]) (noneOf [CHR 0x0A])))
       (\<lambda>n. p_of (Reg_Name n))))"

definition uciRegisterCode :: "UCIRegister Parser" where
  "uciRegisterCode =
     p_chain (str ''code'') (\<lambda>_.
     p_chain whitespaces (\<lambda>_.
     p_chain (flat (manyTill (choice [newline, eof]) (noneOf [CHR 0x0A])))
       (\<lambda>c. p_of (Reg_Code c))))"

definition uciRegister :: "UCIRegister Parser" where
  "uciRegister = choice [uciRegisterLater, uciRegisterCode, uciRegisterName]"

definition uciGoSearchMovesParameter :: "UCIGoParameter Parser" where
  "uciGoSearchMovesParameter =
     p_chain (str ''searchmoves'') (\<lambda>_.
     p_chain whitespaces (\<lambda>_.
     p_chain moves (\<lambda>ms. p_of (SearchMoves ms))))"

definition uciGoPonderParameter :: "UCIGoParameter Parser" where
  "uciGoPonderParameter = p_map (str ''ponder'') (always Ponder)"

definition uciGoWTimeParameter :: "UCIGoParameter Parser" where
  "uciGoWTimeParameter =
     p_chain (str ''wtime'') (\<lambda>_.
     p_chain whitespaces (\<lambda>_.
     p_chain numeric (\<lambda>n. p_of (WTime n))))"

definition uciGoBTimeParameter :: "UCIGoParameter Parser" where
  "uciGoBTimeParameter =
     p_chain (str ''btime'') (\<lambda>_.
     p_chain whitespaces (\<lambda>_.
     p_chain numeric (\<lambda>n. p_of (BTime n))))"

definition uciGoWIncParameter :: "UCIGoParameter Parser" where
  "uciGoWIncParameter =
     p_chain (str ''winc'') (\<lambda>_.
     p_chain whitespaces (\<lambda>_.
     p_chain numeric (\<lambda>n. p_of (WInc n))))"

definition uciGoBIncParameter :: "UCIGoParameter Parser" where
  "uciGoBIncParameter =
     p_chain (str ''binc'') (\<lambda>_.
     p_chain whitespaces (\<lambda>_.
     p_chain numeric (\<lambda>n. p_of (BInc n))))"

definition uciGoMovesToGoParameter :: "UCIGoParameter Parser" where
  "uciGoMovesToGoParameter =
     p_chain (str ''movestogo'') (\<lambda>_.
     p_chain whitespaces (\<lambda>_.
     p_chain numeric (\<lambda>n. p_of (MovesToGo n))))"

definition uciGoDepthParameter :: "UCIGoParameter Parser" where
  "uciGoDepthParameter =
     p_chain (str ''depth'') (\<lambda>_.
     p_chain whitespaces (\<lambda>_.
     p_chain numeric (\<lambda>n. p_of (Depth n))))"

definition uciGoNodesParameter :: "UCIGoParameter Parser" where
  "uciGoNodesParameter =
     p_chain (str ''nodes'') (\<lambda>_.
     p_chain whitespaces (\<lambda>_.
     p_chain numeric (\<lambda>n. p_of (Nodes n))))"

definition uciGoMateParameter :: "UCIGoParameter Parser" where
  "uciGoMateParameter =
     p_chain (str ''mate'') (\<lambda>_.
     p_chain whitespaces (\<lambda>_.
     p_chain numeric (\<lambda>n. p_of (Mate n))))"

definition uciGoMoveTimeParameter :: "UCIGoParameter Parser" where
  "uciGoMoveTimeParameter =
     p_chain (str ''movetime'') (\<lambda>_.
     p_chain whitespaces (\<lambda>_.
     p_chain numeric (\<lambda>n. p_of (MoveTime n))))"

definition uciGoInfiniteParameter :: "UCIGoParameter Parser" where
  "uciGoInfiniteParameter = p_map (str ''infinite'') (always Infinite)"

definition uciGoParameter :: "UCIGoParameter Parser" where
  "uciGoParameter =
     choice
       [uciGoSearchMovesParameter, uciGoPonderParameter, uciGoWTimeParameter,
        uciGoBTimeParameter, uciGoWIncParameter, uciGoBIncParameter,
        uciGoMovesToGoParameter, uciGoDepthParameter, uciGoNodesParameter,
        uciGoMateParameter, uciGoMoveTimeParameter, uciGoInfiniteParameter]"

definition uciUciCmd :: "UCIEngineCommand Parser" where
  "uciUciCmd = expected ''uci'' (p_map (str ''uci'') (always UCI))"

definition uciDebugCmd :: "UCIEngineCommand Parser" where
  "uciDebugCmd =
     expected ''debug [on|off]''
       (p_chain (str ''debug'') (\<lambda>_.
        p_chain whitespaces (\<lambda>_.
        p_chain (option_p None (p_map onOff Some)) (\<lambda>b. p_of (Debug b)))))"

definition uciIsReadyCmd :: "UCIEngineCommand Parser" where
  "uciIsReadyCmd = expected ''isready'' (p_map (str ''isready'') (always IsReady))"

definition uciSetOptionCmd :: "UCIEngineCommand Parser" where
  "uciSetOptionCmd =
     expected ''setoption name <id> [value <x>]''
       (p_chain (str ''setoption'') (\<lambda>_.
        p_chain whitespaces (\<lambda>_.
        p_chain uciSetOptionId (\<lambda>name.
        p_chain whitespaces (\<lambda>_.
        p_chain uciSetOptionValue (\<lambda>v. p_of (SetOption name (Some v))))))))"

definition uciRegisterCmd :: "UCIEngineCommand Parser" where
  "uciRegisterCmd =
     expected ''register [parameter]''
       (p_chain (str ''register'') (\<lambda>_.
        p_chain whitespaces (\<lambda>_.
        p_chain uciRegister (\<lambda>r. p_of (Register r)))))"

definition uciNewGameCmd :: "UCIEngineCommand Parser" where
  "uciNewGameCmd = expected ''ucinewgame'' (p_map (str ''ucinewgame'') (always UCINewGame))"

definition uciPositionCmd :: "UCIEngineCommand Parser" where
  "uciPositionCmd =
     expected ''position [fen <fenstring> | startpos ]  moves <move1> .... <movei>''
       (p_chain (str ''position'') (\<lambda>_.
        p_chain whitespaces (\<lambda>_.
        p_chain (choice [uciPositionFen, uciPositionStartPos]) (\<lambda>pos.
        p_chain whitespaces (\<lambda>_.
        p_chain (option_p [] uciPositionMoves) (\<lambda>ms. p_of (Position pos ms)))))))"

definition uciGoCmd :: "UCIEngineCommand Parser" where
  "uciGoCmd =
     expected ''go [parameters]''
       (p_chain (str ''go'') (\<lambda>_.
        p_chain whitespaces (\<lambda>_.
        p_chain (sepBy uciGoParameter whitespaces) (\<lambda>params. p_of (Go params)))))"

definition uciStopCmd :: "UCIEngineCommand Parser" where
  "uciStopCmd = expected ''stop'' (p_map (str ''stop'') (always Stop))"

definition uciPonderhitCmd :: "UCIEngineCommand Parser" where
  "uciPonderhitCmd = expected ''ponderhit'' (p_map (str ''ponderhit'') (always Ponderhit))"

definition uciQuitCmd :: "UCIEngineCommand Parser" where
  "uciQuitCmd = expected ''quit'' (p_map (str ''quit'') (always Quit))"

definition uciEngineCmd :: "UCIEngineCommand Parser" where
  "uciEngineCmd =
     choice
       [uciUciCmd, uciDebugCmd, uciIsReadyCmd, uciSetOptionCmd, uciRegisterCmd,
        uciNewGameCmd, uciPositionCmd, uciGoCmd, uciStopCmd, uciPonderhitCmd, uciQuitCmd]"

definition uciEngineCmdEOF :: "UCIEngineCommand Parser" where
  "uciEngineCmdEOF =
     p_chain uciEngineCmd (\<lambda>cmd.
     p_chain whitespaces (\<lambda>_.
     p_chain eof (\<lambda>_. p_of cmd)))"

text \<open>
  \<open>parseUCIEngineCmd\<close> keeps the command and drops the remaining input:
  \<open>E.map(([c, _]) => c)\<close>.
\<close>

definition parseUCIEngineCmd :: "string \<Rightarrow> (ParseError + UCIEngineCommand) option" where
  "parseUCIEngineCmd s =
     (case expected ''proper command eventually'' (skipGarbage uciEngineCmdEOF) s of
        None \<Rightarrow> None
      | Some (Inl e) \<Rightarrow> Some (Inl e)
      | Some (Inr (c, rest)) \<Rightarrow> Some (Inr c))"

section \<open>Response serialization (lib/UCI/index.ts)\<close>

text \<open>\<open>tokens.join(sep)\<close>.\<close>

fun join :: "string \<Rightarrow> string list \<Rightarrow> string" where
  "join sep [] = []"
| "join sep [x] = x"
| "join sep (x # y # ys) = x @ sep @ join sep (y # ys)"

text \<open>
  \<open>withLine\<close>: a newline is appended to a non-empty string that does not end with one.
\<close>

definition withLine :: "string \<Rightarrow> string" where
  "withLine s = (if s = [] \<or> last s = CHR 0x0A then s else s @ [CHR 0x0A])"

fun tokenizeId :: "UCIId \<Rightarrow> string list" where
  "tokenizeId (Id_Name n) = [''name'', n]"
| "tokenizeId (Id_Author a) = [''author'', a]"

fun tokenizeScore :: "UCIScore \<Rightarrow> string list" where
  "tokenizeScore (Centipawns n) = [''cp'', toString n]"
| "tokenizeScore (Score_Mate n) = [''mate'', toString n]"
| "tokenizeScore Lowerbound = [''lowerbound'']"
| "tokenizeScore Upperbound = [''upperbound'']"

fun tokenizeInfo :: "UCIInfo \<Rightarrow> string list" where
  "tokenizeInfo (Info_Depth d) = [''depth'', toString d]"
| "tokenizeInfo (SelDepth d) = [''seldepth'', toString d]"
| "tokenizeInfo (Info_Time t) = [''time'', toString t]"
| "tokenizeInfo (Info_Nodes n) = [''nodes'', toString n]"
| "tokenizeInfo (Preview ms) = ''pv'' # ms"
| "tokenizeInfo (MultiPreview n) = [''multipv'', toString n]"
| "tokenizeInfo (Score ps) = ''score'' # concat (map tokenizeScore ps)"
| "tokenizeInfo (CurrMove m) = [''currmove'', m]"
| "tokenizeInfo (CurrMoveNumber n) = [''currmovenumber'', toString n]"
| "tokenizeInfo (HashFull n) = [''hashfull'', toString n]"
| "tokenizeInfo (NodesPerSecond n) = [''nps'', toString n]"
| "tokenizeInfo (TableBaseHits n) = [''tbhits'', toString n]"
| "tokenizeInfo (ShredderBaseHits n) = [''sbhits'', toString n]"
| "tokenizeInfo (CPULoad n) = [''cpuload'', toString n]"
| "tokenizeInfo (Info_String x) = [''string'', x]"
| "tokenizeInfo (Refutation ms) = ''refutation'' # ms"
| "tokenizeInfo (CurrLine cpunr ms) = ''currline'' # toString cpunr # ms"

text \<open>\<open>option.type.toLowerCase()\<close> on the five type names.\<close>

fun typeLower :: "OptionType \<Rightarrow> string" where
  "typeLower Check = ''check''"
| "typeLower Spin = ''spin''"
| "typeLower Combo = ''combo''"
| "typeLower Button = ''button''"
| "typeLower String = ''string''"

text \<open>
  \<open>...(field ? [key, field] : [])\<close>: an optional string is spread when it is truthy, that is,
  defined and not empty.
\<close>

fun whenTruthy :: "string option \<Rightarrow> (string \<Rightarrow> string list) \<Rightarrow> string list" where
  "whenTruthy None f = []"
| "whenTruthy (Some v) f = (if v = [] then [] else f v)"

definition tokenizeOption :: "UCIOption \<Rightarrow> string list" where
  "tokenizeOption opt =
     [''name'', opt_name opt, ''type'', typeLower (opt_type opt)]
     @ whenTruthy (opt_default opt) (\<lambda>v. [''default'', v])
     @ whenTruthy (opt_min opt) (\<lambda>v. [''min'', v])
     @ whenTruthy (opt_max opt) (\<lambda>v. [''max'', v])
     @ whenTruthy (opt_var opt) (\<lambda>v. [''var'', v])"

fun copyStatus :: "CopyStatus \<Rightarrow> string" where
  "copyStatus Copy_ok = ''ok''"
| "copyStatus Copy_error = ''error''"

fun regStatus :: "RegStatus \<Rightarrow> string" where
  "regStatus Reg_ok = ''ok''"
| "regStatus Reg_checking = ''checking''"
| "regStatus Reg_error = ''error''"

fun tokenizeGUICmd :: "UCIGUICommand \<Rightarrow> string list" where
  "tokenizeGUICmd (Id i) = ''id'' # tokenizeId i"
| "tokenizeGUICmd UCIOk = [''uciok'']"
| "tokenizeGUICmd ReadyOk = [''readyok'']"
| "tokenizeGUICmd (BestMove m ponder) = [''bestmove'', m] @ whenTruthy ponder (\<lambda>v. [v])"
| "tokenizeGUICmd (CopyProtection st) = [''copyprotection'', copyStatus st]"
| "tokenizeGUICmd (Registration st) = [''registration'', regStatus st]"
| "tokenizeGUICmd (Info ps) = ''info'' # concat (map tokenizeInfo ps)"
| "tokenizeGUICmd (Option opt) = ''option'' # tokenizeOption opt"

definition serializeTokens :: "string list \<Rightarrow> string" where
  "serializeTokens tokens = join '' '' tokens"

definition serializeGUICmd :: "UCIGUICommand \<Rightarrow> string" where
  "serializeGUICmd c = serializeTokens (tokenizeGUICmd c)"

section \<open>Dispatcher (lib/UCI/index.ts: protocolHandler)\<close>

record InitResult =
  ir_name :: string
  ir_author :: string
  ir_options :: "UCIOption list"

text \<open>
  \<open>protocolHandler(handler)(engineCmd)\<close> calls the handler's callback for the command and
  resolves, once that callback has resolved, with the array given here; \<open>r\<close> is what \<open>onInit\<close>
  resolved with (only the \<open>UCI\<close> case reads it).
\<close>

fun protocolHandler :: "InitResult \<Rightarrow> UCIEngineCommand \<Rightarrow> UCIGUICommand list" where
  "protocolHandler r UCI =
     [Id (Id_Name (ir_name r)), Id (Id_Author (ir_author r))]
     @ map Option (ir_options r) @ [UCIOk]"
| "protocolHandler r (Debug b) = []"
| "protocolHandler r IsReady = [ReadyOk]"
| "protocolHandler r (SetOption n v) = []"
| "protocolHandler r (Register g) = []"
| "protocolHandler r UCINewGame = []"
| "protocolHandler r (Position pos ms) = []"
| "protocolHandler r (Go ps) = []"
| "protocolHandler r Stop = []"
| "protocolHandler r Ponderhit = []"
| "protocolHandler r Quit = []"

text \<open>
  What reaches the output stream. \<open>Responses cs\<close> is the one chunk \<open>handleLine\<close> writes when a
  dispatch has resolved with \<open>cs\<close>: \<open>withLine(cs.map(serializeGUICmd).join("\n"))\<close>. \<open>Sent c\<close> is
  a chunk written by \<open>sendInfo\<close> or \<open>sendBestMove\<close>.
\<close>

datatype Output = Responses "UCIGUICommand list" | Sent UCIGUICommand

fun render :: "Output \<Rightarrow> string" where
  "render (Responses cs) = withLine (join [CHR 0x0A] (map serializeGUICmd cs))"
| "render (Sent c) = withLine (serializeGUICmd c)"

fun isBestMove :: "UCIGUICommand \<Rightarrow> bool" where
  "isBestMove (BestMove m p) = True"
| "isBestMove c = False"

fun carriesBestMove :: "Output \<Rightarrow> bool" where
  "carriesBestMove (Responses cs) = list_ex isBestMove cs"
| "carriesBestMove (Sent c) = isBestMove c"

section \<open>The proxy handler (examples/gleam-chess-tournament-adapter.ts)\<close>

definition startFen :: string where
  "startFen = ''rnbqkbnr/pppppppp/8/8/8/8/PPPPPPPP/RNBQKBNR w KQkq - 0 1''"

text \<open>
  What the handler calls but does not define: the board library and the reply of \<open>fetch\<close> to
  a signal that is already aborted. Each is a parameter.
  \<^item> \<open>chessLoad fen\<close>: the message of the error \<open>chess.load(fen)\<close> throws, if it throws;
  \<^item> \<open>replayDiagnostic fen moves\<close>: the line \<open>loadBoard\<close> logs when a stored move does not
    apply, if one does not;
  \<^item> \<open>boardAscii\<close>, \<open>boardFen\<close>: \<open>chess.ascii()\<close> and \<open>chess.fen()\<close> after \<open>loadBoard\<close>;
  \<^item> \<open>moveSan fen moves san\<close>: \<open>chess.move(san)\<close> on that board, read back as
    \<open>from ^ to ^ promotion\<close>, or what it throws (\<open>Some msg\<close> for an \<open>Error\<close>, \<open>None\<close> for
    anything else);
  \<^item> \<open>abortReason\<close>: what a \<open>fetch\<close> called with an aborted signal rejects with, at once
    (the Fetch standard: when the signal of the request is aborted, \<open>fetch\<close> returns a
    promise that is already rejected).
\<close>

record World =
  chessLoad :: "string \<Rightarrow> string option"
  replayDiagnostic :: "string \<Rightarrow> string list \<Rightarrow> string option"
  boardAscii :: "string \<Rightarrow> string list \<Rightarrow> string"
  boardFen :: "string \<Rightarrow> string list \<Rightarrow> string"
  moveSan :: "string \<Rightarrow> string list \<Rightarrow> string \<Rightarrow> string option + string"
  abortReason :: "string option"

text \<open>
  Where \<open>onGo\<close> is suspended while \<open>this.robotRequest\<close> is defined: at
  \<open>await this.robotRequest\<close>, at \<open>await this.sendInfo(...)\<close> (holding the move to send next),
  or at \<open>await this.sendBestMove(lan)\<close>.
\<close>

datatype GoTask = AwaitRobot | AwaitSendInfo string | AwaitSendBestMove

text \<open>
  The teardown \<open>onQuit_\<close> (\<open>exitGracefully\<close> in \<open>main\<close>): not called; called and suspended at
  its first \<open>await\<close>, before it has asked the robot to exit; waiting for the robot to close
  after killing it; finished.
\<close>

datatype Teardown = NotInvoked | Suspended | Killing | Finished

text \<open>
  The fields of \<open>UCIProxyHandler\<close>, then the state of the process around it.
  \<open>aborted\<close> is \<open>this.abortController.signal.aborted\<close>: the constructor creates the
  controller, and no method assigns the field again. \<open>robotRequest = None\<close> is
  \<open>this.robotRequest === undefined\<close>. \<open>pendingInit\<close> and \<open>pendingReady\<close> count the
  dispatches of \<open>UCI\<close> suspended at \<open>await this.onStartup()\<close> and of \<open>IsReady\<close> suspended at
  \<open>await this.robotRequest.catch(...)\<close>.
\<close>

record Session =
  name :: string
  author :: string
  advertiseOptions :: "UCIOption list"
  robotUrl :: string
  defaultMoveTimeoutMs :: nat
  fen :: string
  moves' :: "string list"
  initialized :: bool
  aborted :: bool
  robotRequest :: "GoTask option"
  startupDone :: bool
  pendingInit :: nat
  pendingReady :: nat
  teardown :: Teardown
  robotKilled :: bool
  exited :: "nat option"
  outputs :: "Output list"
  stderr :: "string list"
  debugLog :: "string list"

text \<open>The constructor, in a process that has just started.\<close>

definition newHandler :: "string \<Rightarrow> string \<Rightarrow> UCIOption list \<Rightarrow> string \<Rightarrow> nat \<Rightarrow> Session" where
  "newHandler n a opts url timeout =
     \<lparr> name = n, author = a, advertiseOptions = opts, robotUrl = url,
       defaultMoveTimeoutMs = timeout, fen = startFen, moves' = [], initialized = False,
       aborted = False, robotRequest = None, startupDone = False, pendingInit = 0,
       pendingReady = 0, teardown = NotInvoked, robotKilled = False, exited = None,
       outputs = [], stderr = [], debugLog = [] \<rparr>"

text \<open>The handler that \<open>main\<close> constructs.\<close>

definition main_handler :: Session where
  "main_handler = newHandler ''Gnomes'' ''Gnomes'' [] ''http://localhost:8000/move'' 5000"

definition logDebug :: "string list \<Rightarrow> Session \<Rightarrow> Session" where
  "logDebug ls s = s\<lparr>debugLog := debugLog s @ ls\<rparr>"

definition onInit_result :: "Session \<Rightarrow> InitResult" where
  "onInit_result s =
     \<lparr> ir_name = name s, ir_author = author s, ir_options = advertiseOptions s \<rparr>"

text \<open>The dispatch of \<open>cmd\<close> resolves: \<open>handleLine\<close> writes its responses as one chunk.\<close>

definition respond :: "UCIEngineCommand \<Rightarrow> Session \<Rightarrow> Session" where
  "respond cmd s =
     s\<lparr>outputs := outputs s @ [Responses (protocolHandler (onInit_result s) cmd)]\<rparr>"

text \<open>
  \<open>caught\<close>: the \<open>catch\<close> and \<open>finally\<close> blocks of \<open>onGo\<close>, after which the dispatch of the
  \<open>Go\<close> resolves.
\<close>

definition caught :: "string option \<Rightarrow> Session \<Rightarrow> Session" where
  "caught err s =
     respond (Go [])
       ((logDebug
          [case err of
             Some msg \<Rightarrow> ''Caught error while asking robot: '' @ msg
           | None \<Rightarrow> ''Caught unknown error while asking robot.''] s)
        \<lparr>robotRequest := None\<rparr>)"

text \<open>\<open>loadBoard\<close> after a successful \<open>chess.load\<close>: the diagnostic of a failed replay.\<close>

definition replayLog :: "World \<Rightarrow> Session \<Rightarrow> string list" where
  "replayLog w s =
     (case replayDiagnostic w (fen s) (moves' s) of None \<Rightarrow> [] | Some d \<Rightarrow> [d])"

definition onNewGame :: "Session \<Rightarrow> Session" where
  "onNewGame s = s\<lparr>fen := startFen, moves' := []\<rparr>"

definition onLoadPosition :: "UCIPosition \<Rightarrow> string list \<Rightarrow> Session \<Rightarrow> Session" where
  "onLoadPosition position ms s =
     (case position of
        FEN f \<Rightarrow> s\<lparr>fen := f, moves' := ms\<rparr>
      | StartPos \<Rightarrow> s\<lparr>fen := startFen, moves' := ms\<rparr>)"

text \<open>
  \<open>onGo\<close> up to its first suspension. A request already in flight ends the process with
  code 1. An error thrown by \<open>chess.load\<close> escapes \<open>onGo\<close>: \<open>wrapStrErr\<close> turns it into a line
  on the error stream. A \<open>fetch\<close> on the aborted signal has rejected by the time \<open>onGo\<close>
  awaits it, and \<open>onGo\<close> runs to its end in the same turn.
\<close>

definition onGo :: "World \<Rightarrow> UCIGoParameter list \<Rightarrow> Session \<Rightarrow> Session" where
  "onGo w params s =
     (if robotRequest s \<noteq> None then
        (logDebug
           [''Received a go request while another go request active!'',
            ''If client was respecting UCI, then we have a severe bug.'',
            ''I don'' @ [CHR 0x27] @ ''t know what to do, so I guess I'' @ [CHR 0x27] @ ''ll die.''] s)
        \<lparr>exited := Some 1\<rparr>
      else
        let s1 =
              (if \<not> initialized s then
                 logDebug
                   [''Received a go request before initialization.'',
                    ''This is non-fatal, but may indicate a bug.'',
                    ''Execution will continue.''] s
               else s)
        in case chessLoad w (fen s1) of
             Some msg \<Rightarrow> s1\<lparr>stderr := stderr s1 @ [withLine (''Unexpected error: '' @ msg)]\<rparr>
           | None \<Rightarrow>
               let s2 =
                     logDebug
                       (replayLog w s1 @
                        [''Received go.'', ''Current chess board is:'',
                         boardAscii w (fen s1) (moves' s1),
                         ''FEN: '' @ boardFen w (fen s1) (moves' s1),
                         ''Asking robot'']) s1
               in if aborted s2 then caught (abortReason w) s2
                  else s2\<lparr>robotRequest := Some AwaitRobot\<rparr>)"

definition onStop :: "Session \<Rightarrow> Session" where
  "onStop s =
     (logDebug [''Received a stop command, aborting robot...''] s)\<lparr>aborted := True\<rparr>"

text \<open>
  \<open>onQuit\<close>: \<open>this.onQuit_(); process.exit(0);\<close>. The call is not awaited. \<open>exitGracefully\<close>
  begins with \<open>await setupRobotPromise\<close>, so the call returns with the teardown suspended
  there, and \<open>process.exit(0)\<close> is the next statement.
\<close>

definition onQuit :: "Session \<Rightarrow> Session" where
  "onQuit s =
     s\<lparr>teardown := (if teardown s = NotInvoked then Suspended else teardown s),
       exited := Some 0\<rparr>"

text \<open>
  One dispatch, \<open>protocolHandler(handler)(cmd)\<close>, up to the point where it resolves or
  suspends. \<open>UCI\<close> waits for \<open>onStartup\<close>; \<open>IsReady\<close> waits for a request that has not
  settled yet.
\<close>

fun dispatch :: "World \<Rightarrow> UCIEngineCommand \<Rightarrow> Session \<Rightarrow> Session" where
  "dispatch w UCI s =
     (if startupDone s then respond UCI (s\<lparr>initialized := True\<rparr>)
      else s\<lparr>pendingInit := Suc (pendingInit s)\<rparr>)"
| "dispatch w (Debug b) s = respond (Debug b) s"
| "dispatch w IsReady s =
     (if robotRequest s = Some AwaitRobot then s\<lparr>pendingReady := Suc (pendingReady s)\<rparr>
      else respond IsReady s)"
| "dispatch w (SetOption n v) s = respond (SetOption n v) s"
| "dispatch w (Register g) s = respond (Register g) s"
| "dispatch w UCINewGame s = respond UCINewGame (onNewGame s)"
| "dispatch w (Position pos ms) s = respond (Position pos ms) (onLoadPosition pos ms s)"
| "dispatch w (Go ps) s = onGo w ps s"
| "dispatch w Stop s = respond Stop (onStop s)"
| "dispatch w Ponderhit s = respond Ponderhit s"
| "dispatch w Quit s = onQuit s"

text \<open>How the request promise settles: with the robot's reply, or with a rejection.\<close>

datatype Settlement = Resolved string | Rejected "string option"

text \<open>
  \<open>onGo\<close> resumes after \<open>await this.robotRequest\<close>: \<open>sanToLan\<close> loads the board again and
  asks it for the move; then \<open>sendInfo\<close> writes the score line.
\<close>

definition onGo_settled :: "World \<Rightarrow> Settlement \<Rightarrow> Session \<Rightarrow> Session" where
  "onGo_settled w r s =
     (case r of
        Rejected err \<Rightarrow> caught err s
      | Resolved response \<Rightarrow>
          let s1 = logDebug [''Robot says: '' @ response] s
          in case chessLoad w (fen s1) of
               Some msg \<Rightarrow> caught (Some msg) s1
             | None \<Rightarrow>
                 let s2 = logDebug (replayLog w s1) s1
                 in case moveSan w (fen s2) (moves' s2) response of
                      Inl err \<Rightarrow> caught err s2
                    | Inr lan \<Rightarrow>
                        s2\<lparr>outputs := outputs s2 @ [Sent (Info [Score [Centipawns (Num 1)]])],
                           robotRequest := Some (AwaitSendInfo lan)\<rparr>)"

text \<open>The \<open>IsReady\<close> dispatches that waited for the request resolve.\<close>

definition releaseReady :: "Session \<Rightarrow> Session" where
  "releaseReady s =
     s\<lparr>outputs := outputs s @ replicate (pendingReady s) (Responses [ReadyOk]),
       pendingReady := 0\<rparr>"

text \<open>The \<open>UCI\<close> dispatches that waited for \<open>onStartup\<close> resume.\<close>

definition releaseInit :: "Session \<Rightarrow> Session" where
  "releaseInit s =
     (if pendingInit s = 0 then s
      else s\<lparr>initialized := True,
             outputs := outputs s
               @ replicate (pendingInit s) (Responses (protocolHandler (onInit_result s) UCI)),
             pendingInit := 0\<rparr>)"

text \<open>
  The teardown after its first \<open>await\<close>: the inner \<open>exitGracefully\<close> of \<open>setupRobot\<close>, up to
  \<open>await Promise.race([death, timeout])\<close>.
\<close>

definition exitGracefully :: "Session \<Rightarrow> Session" where
  "exitGracefully s =
     s\<lparr>stderr := stderr s @ [''Exiting gracefully...'' @ [CHR 0x0A]],
       robotKilled := True, teardown := Killing\<rparr>"

text \<open>
  What happens to the process, one turn of the event loop each:
  a command is dispatched; the robot request settles; a write of \<open>sendInfo\<close> or
  \<open>sendBestMove\<close> has been flushed; \<open>setupRobotPromise\<close> resolves; a suspended teardown
  resumes; the robot has closed, or its five seconds are over.
\<close>

datatype Event =
    Dispatch UCIEngineCommand
  | Settle Settlement
  | WriteDone
  | StartupResolved
  | TeardownResumes
  | RobotClosed

fun react :: "World \<Rightarrow> Event \<Rightarrow> Session \<Rightarrow> Session" where
  "react w (Dispatch cmd) s = dispatch w cmd s"
| "react w (Settle r) s =
     (if robotRequest s = Some AwaitRobot then releaseReady (onGo_settled w r s) else s)"
| "react w WriteDone s =
     (case robotRequest s of
        Some (AwaitSendInfo lan) \<Rightarrow>
          s\<lparr>outputs := outputs s @ [Sent (BestMove lan None)],
            robotRequest := Some AwaitSendBestMove\<rparr>
      | Some AwaitSendBestMove \<Rightarrow> respond (Go []) (s\<lparr>robotRequest := None\<rparr>)
      | _ \<Rightarrow> s)"
| "react w StartupResolved s =
     (if startupDone s then s else releaseInit (s\<lparr>startupDone := True\<rparr>))"
| "react w TeardownResumes s =
     (if startupDone s \<and> teardown s = Suspended then exitGracefully s else s)"
| "react w RobotClosed s =
     (if teardown s = Killing then
        s\<lparr>stderr := stderr s @ [''Done.'' @ [CHR 0x0A]], teardown := Finished, exited := Some 0\<rparr>
      else s)"

text \<open>Nothing happens in a process that has exited.\<close>

definition step :: "World \<Rightarrow> Session \<Rightarrow> Event \<Rightarrow> Session" where
  "step w s ev = (if exited s = None then react w ev s else s)"

definition run :: "World \<Rightarrow> Session \<Rightarrow> Event list \<Rightarrow> Session" where
  "run w s evs = foldl (step w) s evs"

text \<open>The chunks written so far that carry a best move.\<close>

definition bestMoves :: "Session \<Rightarrow> Output list" where
  "bestMoves s = filter carriesBestMove (outputs s)"


text \<open>
  A board library for concrete runs, which stay on the start position with no stored move
  or with the one stored move \<open>e2e4\<close>: there the position loads and the stored move applies.
  On the start position, White to move, the reply \<open>e4\<close> is the move \<open>e2e4\<close>; after \<open>e2e4\<close>,
  Black to move, the reply \<open>e5\<close> is the move \<open>e7e5\<close>; every other reply is refused the way
  \<open>chess.move\<close> refuses an illegal move (so \<open>e5\<close> is refused on the start position). The
  board and the FEN printed in the log are not reproduced.
\<close>

definition stubWorld :: World where
  "stubWorld =
     \<lparr> chessLoad = (\<lambda>f. None),
       replayDiagnostic = (\<lambda>f ms. None),
       boardAscii = (\<lambda>f ms. []),
       boardFen = (\<lambda>f ms. f),
       moveSan = (\<lambda>f ms san.
         if f = startFen \<and> ms = [] \<and> san = ''e4'' then Inr ''e2e4''
         else if f = startFen \<and> ms = [''e2e4''] \<and> san = ''e5'' then Inr ''e7e5''
         else Inl (Some (''Invalid move: '' @ san))),
       abortReason = Some ''The signal has been aborted'' \<rparr>"

text \<open>
  How many best moves the search in the slot can still write: one while \<open>onGo\<close> waits for
  the robot or for the write of the score line, none afterwards.
\<close>

definition owed :: "Session \<Rightarrow> nat" where
  "owed s =
     (case robotRequest s of
        Some AwaitRobot \<Rightarrow> 1
      | Some (AwaitSendInfo lan) \<Rightarrow> 1
      | _ \<Rightarrow> 0)"

text \<open>
  The robot has not been asked to exit, and the teardown has not been called, or has been
  called by \<open>onQuit\<close> in a process that has exited since.
\<close>

definition quiet :: "Session \<Rightarrow> bool" where
  "quiet s \<longleftrightarrow>
     \<not> robotKilled s
     \<and> (teardown s = NotInvoked \<or> (teardown s = Suspended \<and> exited s \<noteq> None))"

section \<open>Equations of the parser core\<close>

text \<open>The loop of \<open>many\<close>, one case at a time.\<close>

lemma many_loop_Inl: "many_loop p as rest (Inl e) = Some (Inr (as, rest))"
  by (subst many_loop.simps) simp

lemma many_loop_Nil: "many_loop p as [] (Inr (a, next)) = Some (Inr (as, []))"
  by (subst many_loop.simps) simp

lemma many_loop_Cons:
  "many_loop p as (c # cs) (Inr (a, next)) =
     (case p next of None \<Rightarrow> None | Some e' \<Rightarrow> many_loop p (as @ [a]) next e')"
  by (subst many_loop.simps) simp

text \<open>\<open>skipGarbage\<close> and \<open>manyTill\<close> as the source writes them, with the combinators.\<close>

lemma skipGarbage_alt:
  "skipGarbage p = p_alt p (\<lambda>_. p_chain anyChar (always (skipGarbage p)))"
proof
  fix x
  show "skipGarbage p x = p_alt p (\<lambda>_. p_chain anyChar (always (skipGarbage p))) x"
    by (subst skipGarbage.simps)
      (simp add: p_alt_def p_chain_def always_def split: option.splits sum.splits prod.splits)
qed

lemma manyTill_alt:
  "manyTill endp p =
     p_alt (p_chain endp (\<lambda>_. p_of []))
       (\<lambda>_. p_chain p (\<lambda>x. p_chain (manyTill endp p) (\<lambda>xs. p_of (x # xs))))"
proof
  fix x
  show "manyTill endp p x =
     p_alt (p_chain endp (\<lambda>_. p_of []))
       (\<lambda>_. p_chain p (\<lambda>x. p_chain (manyTill endp p) (\<lambda>xs. p_of (x # xs)))) x"
    by (subst manyTill.simps)
      (simp add: p_alt_def p_chain_def p_of_def Option.bind_def
           split: option.splits sum.splits prod.splits)
qed

section \<open>Ordered choice\<close>

text \<open>
  \<open>choice\<close> folds its list from the right with the accumulated parser as the first
  argument of \<open>alt\<close>: the head of the list is the alternative tried last.
\<close>

lemma choice_Cons: "choice (p # ps) = p_alt (choice ps) (\<lambda>_. p)"
  by (simp add: choice_def)

lemma choice_pair: "choice [p1, p2] x =
   (case p2 x of None \<Rightarrow> None | Some (Inl e) \<Rightarrow> p1 x | Some (Inr r) \<Rightarrow> Some (Inr r))"
  by (simp add: choice_def p_alt_def p_zero_def split: option.splits sum.splits)

text \<open>
  C1. The claim: when \<open>p1\<close> succeeds on \<open>s\<close>, \<open>choice(p1, p2)(s)\<close> is the result of \<open>p1\<close>,
  whether or not \<open>p2\<close> succeeds too. On the input \<open>abc\<close> both \<open>str("a")\<close> and \<open>str("ab")\<close>
  succeed, and \<open>choice(str("a"), str("ab"))\<close> returns the result of the second.
\<close>

theorem C1_choice_last_listed_wins:
  "str ''a'' ''abc'' = Some (Inr (''a'', ''bc''))
   \<and> str ''ab'' ''abc'' = Some (Inr (''ab'', ''c''))
   \<and> choice [str ''a'', str ''ab''] ''abc'' = Some (Inr (''ab'', ''c''))"
  by code_simp

text \<open>
  The grammar's \<open>numeric = choice(floating, natural)\<close> lists \<open>floating\<close> first; on \<open>1.5\<close> it is
  \<open>natural\<close> that answers, and the fraction is left in the input.
\<close>

lemma numeric_takes_natural_first:
  "numeric ''1.5'' = Some (Inr (Num 1, ''.5''))
   \<and> floating ''1.5'' = Some (Inr (ParseFloat ''1.5'', []))"
  by code_simp

section \<open>Garbage skipping\<close>




section \<open>The command grammar on concrete lines\<close>

text \<open>
  C9. The line \<open>go depth 12 movetime 500\<close> parses to the \<open>Go\<close> command whose parameter list
  is exactly \<open>[Depth 12, MoveTime 500]\<close>, in that order.
\<close>

theorem C9_go_depth_movetime:
  "parseUCIEngineCmd ''go depth 12 movetime 500''
     = Some (Inr (Go [Depth (Num 12), MoveTime (Num 500)]))"
  by code_simp

text \<open>
  C3. The claim: \<open>debug on\<close> gives \<open>Debug\<close> with the flag true, \<open>debug off\<close> gives \<open>Debug\<close>
  with the flag false, \<open>debug\<close> gives \<open>Debug\<close> without a flag. The first and the last hold;
  \<open>debug off\<close> is a parse error, and the line that gives the flag false is \<open>debug false\<close>.
\<close>

theorem C3_debug_lines:
  "parseUCIEngineCmd ''debug on'' = Some (Inr (Debug (Some True)))
   \<and> parseUCIEngineCmd ''debug'' = Some (Inr (Debug None))
   \<and> parseUCIEngineCmd ''debug off''
       = Some (Inl ''Expected proper command eventually but: Expected anything but got EOF'')
   \<and> parseUCIEngineCmd ''debug false'' = Some (Inr (Debug (Some False)))"
  by code_simp

text \<open>
  C4. The claim: \<open>setoption name <id>\<close> without a value clause gives \<open>SetOption\<close> with the
  value absent. The line \<open>setoption name Hash\<close> is a parse error; with a value clause the
  line gives \<open>SetOption\<close> with the name and the value.
\<close>

theorem C4_setoption_lines:
  "parseUCIEngineCmd ''setoption name Hash''
       = Some (Inl ''Expected proper command eventually but: Expected anything but got EOF'')
   \<and> parseUCIEngineCmd ''setoption name Hash value 128''
       = Some (Inr (SetOption ''Hash'' (Some ''128'')))"
  by code_simp

text \<open>
  No line at all parses to \<open>SetOption\<close> with the value absent: a successful parse is a
  success of one alternative of the command grammar at some offset, and the only
  alternative that builds a \<open>SetOption\<close> binds the value clause. (This excludes a result; it
  holds of a line too long for the call stack as well, which returns nothing.)
\<close>

lemma choice_result:
  "choice ps x = Some (Inr r) \<Longrightarrow> \<exists>p \<in> set ps. p x = Some (Inr r)"
proof (induction ps)
  case Nil
  then show ?case by (simp add: choice_def p_zero_def)
next
  case (Cons p ps)
  show ?case
  proof (cases "choice ps x")
    case None
    with Cons.prems show ?thesis by (simp add: choice_Cons p_alt_def)
  next
    case (Some e)
    show ?thesis
    proof (cases e)
      case (Inl err)
      with Some Cons.prems have "p x = Some (Inr r)" by (simp add: choice_Cons p_alt_def)
      then show ?thesis by simp
    next
      case (Inr r')
      with Some Cons.prems have "choice ps x = Some (Inr r)" by (simp add: choice_Cons p_alt_def)
      with Cons.IH show ?thesis by simp
    qed
  qed
qed

lemma skipGarbage_result:
  "skipGarbage p x = Some (Inr r) \<Longrightarrow> \<exists>y. p y = Some (Inr r)"
proof (induction p x rule: skipGarbage.induct)
  case (1 p x)
  show ?case
  proof (cases "p x")
    case None
    with "1.prems" show ?thesis by (subst (asm) skipGarbage.simps) simp
  next
    case (Some e)
    show ?thesis
    proof (cases e)
      case (Inr r')
      with Some "1.prems" have "r' = r" by (subst (asm) skipGarbage.simps) simp
      with Some Inr show ?thesis by blast
    next
      case (Inl err)
      show ?thesis
      proof (cases "anyChar x")
        case None
        with Some Inl "1.prems" show ?thesis by (subst (asm) skipGarbage.simps) simp
      next
        case some: (Some e')
        show ?thesis
        proof (cases e')
          case inl: (Inl err')
          with some Some Inl "1.prems" show ?thesis by (subst (asm) skipGarbage.simps) simp
        next
          case inr: (Inr ar)
          obtain a rest where ar: "ar = (a, rest)" by (cases ar)
          with inr some Some Inl "1.prems" have "skipGarbage p rest = Some (Inr r)"
            by (subst (asm) skipGarbage.simps) simp
          with "1.IH" [OF Some Inl some inr ar [symmetric]] show ?thesis by simp
        qed
      qed
    qed
  qed
qed

lemma keyword_value:
  "expected msg (p_map (str kw) (always c)) x = Some (Inr (c', r)) \<Longrightarrow> c' = c"
  by (auto simp: expected_def p_map_def always_def str_def split: if_splits)

lemma chain_value:
  "p_chain p f x = Some (Inr r) \<Longrightarrow> \<exists>a y. f a y = Some (Inr r)"
  by (auto simp: p_chain_def split: option.splits sum.splits)

lemma expected_value: "expected msg p x = Some (Inr r) \<Longrightarrow> p x = Some (Inr r)"
  by (auto simp: expected_def split: option.splits sum.splits)

lemma of_value: "p_of a y = Some (Inr (c, r)) \<Longrightarrow> c = a"
  by (simp add: p_of_def)

lemma command_value:
  assumes "uciEngineCmd x = Some (Inr (c, r))"
  shows "c \<noteq> SetOption n None"
proof -
  from choice_result [OF assms [unfolded uciEngineCmd_def]]
  consider "uciUciCmd x = Some (Inr (c, r))" | "uciDebugCmd x = Some (Inr (c, r))"
    | "uciIsReadyCmd x = Some (Inr (c, r))" | "uciSetOptionCmd x = Some (Inr (c, r))"
    | "uciRegisterCmd x = Some (Inr (c, r))" | "uciNewGameCmd x = Some (Inr (c, r))"
    | "uciPositionCmd x = Some (Inr (c, r))" | "uciGoCmd x = Some (Inr (c, r))"
    | "uciStopCmd x = Some (Inr (c, r))" | "uciPonderhitCmd x = Some (Inr (c, r))"
    | "uciQuitCmd x = Some (Inr (c, r))"
    by auto
  then show ?thesis
  proof cases
    case 1
    then show ?thesis unfolding uciUciCmd_def by (auto dest: keyword_value)
  next
    case 2
    then show ?thesis unfolding uciDebugCmd_def
      by (auto dest!: expected_value chain_value dest: of_value)
  next
    case 3
    then show ?thesis unfolding uciIsReadyCmd_def by (auto dest: keyword_value)
  next
    case 4
    then show ?thesis unfolding uciSetOptionCmd_def
      by (auto dest!: expected_value chain_value dest: of_value)
  next
    case 5
    then show ?thesis unfolding uciRegisterCmd_def
      by (auto dest!: expected_value chain_value dest: of_value)
  next
    case 6
    then show ?thesis unfolding uciNewGameCmd_def by (auto dest: keyword_value)
  next
    case 7
    then show ?thesis unfolding uciPositionCmd_def
      by (auto dest!: expected_value chain_value dest: of_value)
  next
    case 8
    then show ?thesis unfolding uciGoCmd_def
      by (auto dest!: expected_value chain_value dest: of_value)
  next
    case 9
    then show ?thesis unfolding uciStopCmd_def by (auto dest: keyword_value)
  next
    case 10
    then show ?thesis unfolding uciPonderhitCmd_def by (auto dest: keyword_value)
  next
    case 11
    then show ?thesis unfolding uciQuitCmd_def by (auto dest: keyword_value)
  qed
qed

lemma setoption_value_never_absent:
  "parseUCIEngineCmd s \<noteq> Some (Inr (SetOption n None))"
proof
  assume "parseUCIEngineCmd s = Some (Inr (SetOption n None))"
  then obtain rest where "skipGarbage uciEngineCmdEOF s = Some (Inr (SetOption n None, rest))"
    by (auto simp: parseUCIEngineCmd_def expected_def split: option.splits sum.splits)
  from skipGarbage_result [OF this]
  obtain y where "uciEngineCmdEOF y = Some (Inr (SetOption n None, rest))" ..
  then obtain r where "uciEngineCmd y = Some (Inr (SetOption n None, r))"
    by (auto simp: uciEngineCmdEOF_def p_chain_def p_of_def split: option.splits sum.splits)
  from command_value [OF this, of n] show False by simp
qed

section \<open>Numbers\<close>

lemma digit_Cons:
  "c \<in> set ''0123456789'' \<Longrightarrow> digit (c # cs) = Some (Inr ([c], cs))"
  by (simp add: digit_def oneOf_def satisfy_def)

lemma digit_stops:
  assumes "rest = [] \<or> hd rest \<notin> set ''0123456789''"
  shows "\<exists>e. digit rest = Some (Inl e)"
proof (cases rest)
  case Nil
  then show ?thesis by (simp add: digit_def oneOf_def satisfy_def)
next
  case (Cons c cs)
  with assms have "c \<notin> set ''0123456789''" by simp
  with Cons show ?thesis by (simp add: digit_def oneOf_def satisfy_def)
qed

lemma many_loop_digits:
  assumes "set ds \<subseteq> set ''0123456789''"
    and "rest = [] \<or> hd rest \<notin> set ''0123456789''"
  shows "many_loop digit acc (d # ds @ rest) (Inr ([d], ds @ rest))
           = Some (Inr (acc @ map (\<lambda>c. [c]) (d # ds), rest))"
  using assms(1)
proof (induction ds arbitrary: acc d)
  case Nil
  from digit_stops [OF assms(2)] obtain e where "digit rest = Some (Inl e)" ..
  then show ?case
    by (simp add: many_loop_Cons many_loop_Inl)
next
  case (Cons d' ds)
  then have d': "d' \<in> set ''0123456789''" and ds: "set ds \<subseteq> set ''0123456789''"
    by simp_all
  have "many_loop digit acc (d # (d' # ds) @ rest) (Inr ([d], (d' # ds) @ rest))
          = many_loop digit (acc @ [[d]]) (d' # ds @ rest) (Inr ([d'], ds @ rest))"
    by (simp only: many_loop_Cons append_Cons digit_Cons [OF d'] option.case)
  also have "\<dots> = Some (Inr ((acc @ [[d]]) @ map (\<lambda>c. [c]) (d' # ds), rest))"
    by (rule Cons.IH [OF ds])
  finally show ?case by simp
qed

lemma many_digits:
  assumes "set ds \<subseteq> set ''0123456789''"
    and "rest = [] \<or> hd rest \<notin> set ''0123456789''"
  shows "many digit (ds @ rest) = Some (Inr (map (\<lambda>c. [c]) ds, rest))"
proof (cases ds)
  case Nil
  from digit_stops [OF assms(2)] obtain e where "digit rest = Some (Inl e)" ..
  with Nil show ?thesis by (simp add: many_def many_loop_Inl)
next
  case (Cons d ds')
  with assms(1) have d: "d \<in> set ''0123456789''" and ds': "set ds' \<subseteq> set ''0123456789''"
    by simp_all
  have "many digit (ds @ rest) = many_loop digit [] (d # ds' @ rest) (Inr ([d], ds' @ rest))"
    using Cons by (simp only: many_def append_Cons digit_Cons [OF d] option.case)
  also have "\<dots> = Some (Inr ([] @ map (\<lambda>c. [c]) (d # ds'), rest))"
    by (rule many_loop_digits [OF ds' assms(2)])
  finally show ?thesis using Cons by simp
qed

lemma concat_singletons: "concat (map (\<lambda>c. [c]) ds) = ds"
  by (induction ds) simp_all

lemma natural_digits:
  assumes "ds \<noteq> []" and "set ds \<subseteq> set ''0123456789''"
    and "rest = [] \<or> hd rest \<notin> set ''0123456789''"
  shows "natural (ds @ rest) = Some (Inr (unaryPlus ds, rest))"
proof -
  from assms(1) obtain d ds' where ds: "ds = d # ds'"
    by (cases ds) auto
  with assms(2) have d: "d \<in> set ''0123456789''" and ds': "set ds' \<subseteq> set ''0123456789''"
    by simp_all
  have "many1 digit (ds @ rest) = Some (Inr (map (\<lambda>c. [c]) ds, rest))"
    by (simp add: many1_def ds digit_Cons [OF d] many_digits [OF ds' assms(3)])
  then show ?thesis
    by (simp add: natural_def expected_def p_map_def flat_def concat_singletons)
qed

lemma option_sign:
  "option_p ''+'' (oneOf ''-+'') (c # cs) =
     (if c = CHR ''-'' \<or> c = CHR ''+'' then Some (Inr ([c], cs)) else Some (Inr (''+'', c # cs)))"
  by (simp add: option_p_def p_alt_def oneOf_def satisfy_def p_of_def)

lemma int_p_digits:
  assumes "sign \<in> {[], ''+'', ''-''}"
    and "ds \<noteq> []" and "set ds \<subseteq> set ''0123456789''"
    and "rest = [] \<or> hd rest \<notin> set ''0123456789''"
  shows "int_p (sign @ ds @ rest)
           = Some (Inr (if sign = ''-'' then negate (unaryPlus ds) else unaryPlus ds, rest))"
proof -
  note nat = natural_digits [OF assms(2,3,4)]
  from assms(2) obtain d ds' where ds: "ds = d # ds'"
    by (cases ds) auto
  with assms(3) have d: "d \<in> set ''0123456789''"
    by simp
  then have nosign: "d \<noteq> CHR ''-''" "d \<noteq> CHR ''+''"
    by auto
  from assms(1) consider "sign = []" | "sign = ''+''" | "sign = ''-''"
    by auto
  then show ?thesis
  proof cases
    case 1
    have "option_p ''+'' (oneOf ''-+'') (ds @ rest) = Some (Inr (''+'', ds @ rest))"
      using nosign by (simp add: ds option_sign)
    then show ?thesis
      using 1 nat by (simp add: int_p_def expected_def p_chain_def p_of_def)
  next
    case 2
    have "option_p ''+'' (oneOf ''-+'') (''+'' @ ds @ rest) = Some (Inr (''+'', ds @ rest))"
      by (simp add: option_sign)
    then show ?thesis
      using 2 nat by (simp add: int_p_def expected_def p_chain_def p_of_def)
  next
    case 3
    have "option_p ''+'' (oneOf ''-+'') (''-'' @ ds @ rest) = Some (Inr (''-'', ds @ rest))"
      by (simp add: option_sign)
    then show ?thesis
      using 3 nat by (simp add: int_p_def expected_def p_chain_def p_of_def)
  qed
qed

text \<open>
  C10. On an optional sign, a run of digits, a dot and a second run of digits, \<open>floating\<close>
  succeeds, and its value is \<open>parseFloat\<close> of the text made of the printed value of the
  signed integer part, the dot, and the printed value of the second run read as a natural
  number on its own.
\<close>

theorem C10_floating_textual:
  assumes "sign \<in> {[], ''+'', ''-''}"
    and "ds1 \<noteq> []" and "set ds1 \<subseteq> set ''0123456789''" and "length ds1 \<le> 15"
    and "ds2 \<noteq> []" and "set ds2 \<subseteq> set ''0123456789''" and "length ds2 \<le> 15"
    and "rest = [] \<or> hd rest \<notin> set ''0123456789''"
  shows "floating (sign @ ds1 @ ''.'' @ ds2 @ rest)
           = Some (Inr (ParseFloat
                (toString (if sign = ''-'' then negate (unaryPlus ds1) else unaryPlus ds1)
                 @ ''.'' @ toString (unaryPlus ds2)), rest))"
proof -
  have dot: "''.'' @ ds2 @ rest = [] \<or> hd (''.'' @ ds2 @ rest) \<notin> set ''0123456789''"
    by simp
  have left: "int_p (sign @ ds1 @ ''.'' @ ds2 @ rest)
      = Some (Inr (if sign = ''-'' then negate (unaryPlus ds1) else unaryPlus ds1,
                   ''.'' @ ds2 @ rest))"
    by (rule int_p_digits [OF assms(1,2,3) dot])
  have right: "natural (ds2 @ rest) = Some (Inr (unaryPlus ds2, rest))"
    by (rule natural_digits [OF assms(5,6,8)])
  have point: "char_p ''.'' (''.'' @ ds2 @ rest) = Some (Inr (''.'', ds2 @ rest))"
    by (simp add: char_p_def satisfy_def)
  show ?thesis
    by (simp only: floating_def expected_def p_chain_def left point right p_of_def
          option.case sum.case prod.case)
qed

theorem C10_floating_textual_witness:
  "''-'' \<in> {[], ''+'', ''-''} \<and> ''1'' \<noteq> [] \<and> set ''1'' \<subseteq> set ''0123456789''
   \<and> length ''1'' \<le> 15 \<and> ''5'' \<noteq> [] \<and> set ''5'' \<subseteq> set ''0123456789''
   \<and> length ''5'' \<le> 15
   \<and> floating ''-1.5'' = Some (Inr (ParseFloat ''-1.5'', []))"
proof -
  have "toString (negate (unaryPlus ''1'')) = ''-1''" "toString (unaryPlus ''5'') = ''5''"
    by code_simp+
  with C10_floating_textual [of "''-''" "''1''" "''5''" "[]"] show ?thesis
    by simp
qed

section \<open>Runs of the proxy handler\<close>

lemma step_dead: "exited s \<noteq> None \<Longrightarrow> step w s ev = s"
  by (cases "exited s") (simp_all add: step_def)

lemma run_Nil: "run w s [] = s"
  by (simp add: run_def)

lemma run_Cons: "run w s (ev # evs) = run w (step w s ev) evs"
  by (simp add: run_def)

lemma run_append: "run w s (evs @ evs') = run w (run w s evs) evs'"
  by (simp add: run_def)

lemma run_dead: "exited s \<noteq> None \<Longrightarrow> run w s evs = s"
  by (induction evs) (simp_all add: run_Nil run_Cons step_dead)

text \<open>No response array of the dispatcher carries a best move.\<close>

lemma no_bestmove_in_options: "\<not> list_ex isBestMove (map Option opts)"
  by (induction opts) simp_all

lemma protocolHandler_no_bestmove: "\<not> list_ex isBestMove (protocolHandler r cmd)"
  by (cases cmd) (simp_all add: no_bestmove_in_options)

lemma filter_replicate_False: "\<not> P x \<Longrightarrow> filter P (replicate n x) = []"
  by (induction n) simp_all

lemma responses_carry_no_bestmove: "\<not> carriesBestMove (Responses (protocolHandler r cmd))"
  by (simp only: carriesBestMove.simps protocolHandler_no_bestmove not_False_eq_True)

lemma replicate_responses_no_bestmove:
  "filter carriesBestMove (replicate n (Responses (protocolHandler r cmd))) = []"
  using responses_carry_no_bestmove by (rule filter_replicate_False)

lemma releaseInit_fields:
  "robotRequest (releaseInit s) = robotRequest s"
  "aborted (releaseInit s) = aborted s"
  "exited (releaseInit s) = exited s"
  "bestMoves (releaseInit s) = bestMoves s"
  by (simp_all add: releaseInit_def bestMoves_def
        replicate_responses_no_bestmove del: protocolHandler.simps)

lemma respond_fields:
  "robotRequest (respond cmd s) = robotRequest s"
  "aborted (respond cmd s) = aborted s"
  "exited (respond cmd s) = exited s"
  "bestMoves (respond cmd s) = bestMoves s"
  by (simp_all add: respond_def bestMoves_def protocolHandler_no_bestmove)

lemma caught_fields:
  "robotRequest (caught err s) = None"
  "aborted (caught err s) = aborted s"
  "exited (caught err s) = exited s"
  "bestMoves (caught err s) = bestMoves s"
  by (simp_all add: caught_def respond_fields)
     (simp_all add: bestMoves_def logDebug_def)

lemmas handler_defs =
  logDebug_def onNewGame_def onLoadPosition_def onGo_def onStop_def
  onQuit_def onGo_settled_def releaseReady_def releaseInit_def exitGracefully_def bestMoves_def

subsection \<open>The abort signal\<close>

text \<open>Once aborted, the signal stays aborted: no event resets it.\<close>

lemma dispatch_aborted: "aborted s \<Longrightarrow> aborted (dispatch w cmd s)"
  by (cases cmd)
    (auto simp: handler_defs respond_fields caught_fields Let_def
        split: option.splits UCIPosition.splits)

lemma react_aborted: "aborted s \<Longrightarrow> aborted (react w ev s)"
  by (cases ev)
    (auto simp: dispatch_aborted handler_defs respond_fields caught_fields Let_def
        split: option.splits GoTask.splits Settlement.splits sum.splits)

lemma step_aborted: "aborted s \<Longrightarrow> aborted (step w s ev)"
  by (simp add: step_def react_aborted)

lemma run_aborted: "aborted s \<Longrightarrow> aborted (run w s evs)"
  by (induction evs arbitrary: s) (simp_all add: run_Nil run_Cons step_aborted)

lemma stop_aborts: "exited s = None \<Longrightarrow> aborted (step w s (Dispatch Stop))"
  by (simp add: step_def respond_fields) (simp add: handler_defs)

text \<open>A \<open>Go\<close> dispatched on the aborted signal leaves the slot as it found it.\<close>

lemma onGo_when_aborted:
  assumes "aborted s"
  shows "robotRequest (onGo w ps s) = robotRequest s \<and> bestMoves (onGo w ps s) = bestMoves s"
proof (cases "robotRequest s")
  case (Some t)
  then show ?thesis
    by (simp add: onGo_def logDebug_def bestMoves_def)
next
  case None
  show ?thesis
  proof (cases "chessLoad w (fen s)")
    case (Some msg)
    with None show ?thesis
      by (simp add: onGo_def logDebug_def bestMoves_def Let_def)
  next
    case noload: None
    with None assms show ?thesis
      by (simp add: onGo_def Let_def logDebug_def caught_fields)
         (simp add: bestMoves_def)
  qed
qed

lemma go_when_aborted:
  assumes "aborted s"
  shows "robotRequest (step w s (Dispatch (Go ps))) = robotRequest s
         \<and> bestMoves (step w s (Dispatch (Go ps))) = bestMoves s"
  using onGo_when_aborted [OF assms] by (simp add: step_def)

text \<open>With the signal aborted and the slot empty, no event fills the slot or writes a move.\<close>

lemma dispatch_idle_aborted:
  assumes "aborted s" and "robotRequest s = None"
  shows "robotRequest (dispatch w cmd s) = None \<and> bestMoves (dispatch w cmd s) = bestMoves s"
proof (cases cmd)
  case (Go ps)
  with onGo_when_aborted [OF assms(1)] assms(2) show ?thesis by simp
next
  case (Position pos ms)
  with assms show ?thesis
    by (cases pos) (simp_all add: respond_fields, simp_all add: handler_defs)
qed (use assms in \<open>simp_all add: respond_fields\<close>, simp_all add: handler_defs)

lemma react_idle_aborted:
  assumes "aborted s" and "robotRequest s = None"
  shows "robotRequest (react w ev s) = None \<and> bestMoves (react w ev s) = bestMoves s"
proof (cases ev)
  case (Dispatch cmd)
  with dispatch_idle_aborted [OF assms] show ?thesis by simp
next
  case (Settle r)
  with assms show ?thesis by simp
next
  case WriteDone
  with assms show ?thesis by simp
next
  case StartupResolved
  with assms show ?thesis
    by (simp add: releaseInit_fields) (simp add: bestMoves_def)
next
  case TeardownResumes
  with assms show ?thesis by (simp add: handler_defs)
next
  case RobotClosed
  with assms show ?thesis by (simp add: handler_defs)
qed

lemma step_idle_aborted:
  assumes "aborted s" and "robotRequest s = None"
  shows "robotRequest (step w s ev) = None \<and> bestMoves (step w s ev) = bestMoves s"
  using react_idle_aborted [OF assms] assms by (simp add: step_def)

lemma run_idle_aborted:
  assumes "aborted s" and "robotRequest s = None"
  shows "robotRequest (run w s evs) = None \<and> bestMoves (run w s evs) = bestMoves s"
  using assms
proof (induction evs arbitrary: s)
  case Nil
  then show ?case by (simp add: run_Nil)
next
  case (Cons ev evs)
  from step_idle_aborted [OF Cons.prems]
  have 1: "robotRequest (step w s ev) = None" and 2: "bestMoves (step w s ev) = bestMoves s"
    by simp_all
  from step_aborted [OF Cons.prems(1)] have 3: "aborted (step w s ev)" .
  from Cons.IH [OF 3 1] 2 show ?case
    by (simp add: run_Cons)
qed

text \<open>With the signal aborted, the written and the owed best moves never grow together.\<close>

lemma filter_replicate_ready:
  "filter carriesBestMove (replicate n (Responses [ReadyOk])) = []"
  by (rule filter_replicate_False) simp

lemma releaseReady_fields:
  "robotRequest (releaseReady s) = robotRequest s"
  "aborted (releaseReady s) = aborted s"
  "exited (releaseReady s) = exited s"
  "bestMoves (releaseReady s) = bestMoves s"
  by (simp_all add: releaseReady_def bestMoves_def filter_replicate_ready)

lemma logDebug_fields:
  "robotRequest (logDebug ls s) = robotRequest s"
  "aborted (logDebug ls s) = aborted s"
  "exited (logDebug ls s) = exited s"
  "bestMoves (logDebug ls s) = bestMoves s"
  "fen (logDebug ls s) = fen s"
  "moves' (logDebug ls s) = moves' s"
  by (simp_all add: logDebug_def bestMoves_def)

lemma sendInfo_fields:
  "bestMoves (s\<lparr>outputs := outputs s @ [Sent (Info i)], robotRequest := t\<rparr>) = bestMoves s"
  by (simp add: bestMoves_def)

lemma slot_fields:
  "bestMoves (s\<lparr>robotRequest := t\<rparr>) = bestMoves s"
  "bestMoves (s\<lparr>outputs := outputs s @ [Sent (BestMove lan None)]\<rparr>)
     = bestMoves s @ [Sent (BestMove lan None)]"
  by (simp_all add: bestMoves_def)

lemma onGo_settled_owed:
  "length (bestMoves (onGo_settled w r s)) + owed (onGo_settled w r s) \<le> length (bestMoves s) + 1"
proof (cases r)
  case (Rejected err)
  then show ?thesis
    by (simp add: onGo_settled_def owed_def caught_fields)
next
  case (Resolved response)
  show ?thesis
  proof (cases "chessLoad w (fen s)")
    case (Some msg)
    with Resolved show ?thesis
      by (simp add: onGo_settled_def owed_def caught_fields logDebug_fields)
  next
    case None
    show ?thesis
    proof (cases "moveSan w (fen s) (moves' s) response")
      case (Inl err)
      with Resolved None show ?thesis
        by (simp add: onGo_settled_def owed_def caught_fields logDebug_fields Let_def)
    next
      case (Inr lan)
      with Resolved None show ?thesis
        by (simp add: onGo_settled_def owed_def logDebug_fields Let_def sendInfo_fields)
    qed
  qed
qed

lemma dispatch_owed:
  assumes "aborted s"
  shows "length (bestMoves (dispatch w cmd s)) + owed (dispatch w cmd s)
           \<le> length (bestMoves s) + owed s"
proof (cases cmd)
  case (Go ps)
  with onGo_when_aborted [OF assms, of w ps] show ?thesis
    by (simp add: owed_def)
next
  case (Position pos ms)
  then show ?thesis
    by (cases pos) (simp_all add: respond_fields owed_def, simp_all add: handler_defs)
qed (simp_all add: respond_fields owed_def, simp_all add: handler_defs)

lemma react_owed:
  assumes "aborted s"
  shows "length (bestMoves (react w ev s)) + owed (react w ev s)
           \<le> length (bestMoves s) + owed s"
proof (cases ev)
  case (Dispatch cmd)
  with dispatch_owed [OF assms] show ?thesis by simp
next
  case (Settle r)
  show ?thesis
  proof (cases "robotRequest s = Some AwaitRobot")
    case True
    with onGo_settled_owed [of w r s] Settle show ?thesis
      by (simp add: releaseReady_fields owed_def)
  next
    case False
    with Settle show ?thesis by simp
  qed
next
  case WriteDone
  show ?thesis
  proof (cases "robotRequest s")
    case None
    with WriteDone show ?thesis by simp
  next
    case (Some t)
    with WriteDone show ?thesis
      by (cases t) (simp_all add: owed_def respond_fields slot_fields)
  qed
next
  case StartupResolved
  then show ?thesis
    by (simp add: releaseInit_fields owed_def) (simp add: bestMoves_def)
next
  case TeardownResumes
  then show ?thesis by (simp add: handler_defs owed_def)
next
  case RobotClosed
  then show ?thesis by (simp add: handler_defs owed_def)
qed

lemma run_owed:
  assumes "aborted s"
  shows "length (bestMoves (run w s evs)) + owed (run w s evs) \<le> length (bestMoves s) + owed s"
  using assms
proof (induction evs arbitrary: s)
  case Nil
  then show ?case by (simp add: run_Nil)
next
  case (Cons ev evs)
  have "length (bestMoves (step w s ev)) + owed (step w s ev) \<le> length (bestMoves s) + owed s"
    using react_owed [OF Cons.prems] by (simp add: step_def)
  moreover have "length (bestMoves (run w (step w s ev) evs)) + owed (run w (step w s ev) evs)
      \<le> length (bestMoves (step w s ev)) + owed (step w s ev)"
    by (rule Cons.IH [OF step_aborted [OF Cons.prems]])
  ultimately show ?case
    by (simp add: run_Cons)
qed

lemma stop_fields:
  assumes "exited s = None"
  shows "robotRequest (step w s (Dispatch Stop)) = robotRequest s"
    and "bestMoves (step w s (Dispatch Stop)) = bestMoves s"
    and "exited (step w s (Dispatch Stop)) = None"
  using assms by (simp_all add: step_def respond_fields) (simp_all add: handler_defs)

lemma go_rejected_at_once:
  assumes "aborted s" and "exited s = None" and "robotRequest s = None"
    and "chessLoad w (fen s) = None"
  shows "last (debugLog (step w s (Dispatch (Go ps)))) =
           (case abortReason w of
              Some msg \<Rightarrow> ''Caught error while asking robot: '' @ msg
            | None \<Rightarrow> ''Caught unknown error while asking robot.'')"
  using assms
  by (simp add: step_def onGo_def Let_def logDebug_def caught_def respond_def)

text \<open>
  C5. The abort controller is created once and never replaced. After a \<open>Stop\<close> has been
  dispatched (in a live process), whatever happens next: the signal is aborted; a \<open>Go\<close>
  leaves the request slot as it found it and writes no best move, and where it is accepted
  (process alive, slot empty, position loads) the last line it logs is the caught rejection
  of its request; the best moves written since the \<open>Stop\<close> are at most the one the search in
  flight at the \<open>Stop\<close> still owed, and none when the slot was empty.
\<close>

theorem C5_abort_signal_is_permanent:
  assumes "exited s = None"
  shows "let s1 = run w (step w s (Dispatch Stop)) evs;
             s2 = step w s1 (Dispatch (Go ps))
         in aborted s1
            \<and> robotRequest s2 = robotRequest s1
            \<and> bestMoves s2 = bestMoves s1
            \<and> (exited s1 = None \<and> robotRequest s1 = None \<and> chessLoad w (fen s1) = None \<longrightarrow>
                 last (debugLog s2) =
                   (case abortReason w of
                      Some msg \<Rightarrow> ''Caught error while asking robot: '' @ msg
                    | None \<Rightarrow> ''Caught unknown error while asking robot.''))
            \<and> length (bestMoves s1) \<le> length (bestMoves s) + owed s
            \<and> (robotRequest s = None \<longrightarrow> bestMoves s1 = bestMoves s)"
proof -
  define s0 where "s0 = step w s (Dispatch Stop)"
  define s1 where "s1 = run w s0 evs"
  have a0: "aborted s0"
    unfolding s0_def by (rule stop_aborts [OF assms])
  have a1: "aborted s1"
    unfolding s1_def by (rule run_aborted [OF a0])
  have r0: "robotRequest s0 = robotRequest s" and b0: "bestMoves s0 = bestMoves s"
    unfolding s0_def by (rule stop_fields [OF assms])+
  have o0: "owed s0 = owed s"
    by (simp add: owed_def r0)
  have "length (bestMoves s1) + owed s1 \<le> length (bestMoves s0) + owed s0"
    unfolding s1_def by (rule run_owed [OF a0])
  then have le: "length (bestMoves s1) \<le> length (bestMoves s) + owed s"
    by (simp add: b0 o0)
  have idle: "bestMoves s1 = bestMoves s" if "robotRequest s = None"
    using run_idle_aborted [OF a0, of w evs] that by (simp add: r0 b0 s1_def)
  have lg: "last (debugLog (step w s1 (Dispatch (Go ps)))) =
                   (case abortReason w of
                      Some msg \<Rightarrow> ''Caught error while asking robot: '' @ msg
                    | None \<Rightarrow> ''Caught unknown error while asking robot.'')"
    if "exited s1 = None \<and> robotRequest s1 = None \<and> chessLoad w (fen s1) = None"
    using that go_rejected_at_once [OF a1, of w ps] by blast
  from a1 go_when_aborted [OF a1, of w ps] le idle lg show ?thesis
    unfolding Let_def s1_def [symmetric] s0_def [symmetric] by blast
qed

theorem C5_abort_signal_is_permanent_witness:
  "exited main_handler = None
   \<and> (let s1 = run stubWorld (step stubWorld main_handler (Dispatch Stop))
                 [Dispatch UCINewGame];
           s2 = step stubWorld s1 (Dispatch (Go [Infinite]))
       in aborted s1 \<and> robotRequest s2 = None \<and> bestMoves s2 = []
          \<and> last (debugLog s2) = ''Caught error while asking robot: The signal has been aborted'')"
proof -
  have h: "exited main_handler = None"
    by (simp add: main_handler_def newHandler_def)
  have e: "exited (run stubWorld (step stubWorld main_handler (Dispatch Stop)) [Dispatch UCINewGame]) = None"
    "robotRequest (run stubWorld (step stubWorld main_handler (Dispatch Stop)) [Dispatch UCINewGame]) = None"
    "bestMoves (run stubWorld (step stubWorld main_handler (Dispatch Stop)) [Dispatch UCINewGame]) = []"
    "chessLoad stubWorld (fen (run stubWorld (step stubWorld main_handler (Dispatch Stop)) [Dispatch UCINewGame])) = None"
    "abortReason stubWorld = Some ''The signal has been aborted''"
    by code_simp+
  from C5_abort_signal_is_permanent [OF h, of stubWorld "[Dispatch UCINewGame]" "[Infinite]"] e h
  show ?thesis
    by (simp add: Let_def)
qed

subsection \<open>Stop while a search is in flight\<close>








subsection \<open>Quit\<close>

lemma quit_fields:
  assumes "exited s = None"
  shows "exited (step w s (Dispatch Quit)) = Some 0"
    and "teardown (step w s (Dispatch Quit))
           = (if teardown s = NotInvoked then Suspended else teardown s)"
    and "robotKilled (step w s (Dispatch Quit)) = robotKilled s"
    and "outputs (step w s (Dispatch Quit)) = outputs s"
  using assms by (simp_all add: step_def onQuit_def)

text \<open>
  C7. The claim: the teardown completes before the process terminates. In the handler that
  \<open>main\<close> builds, with the robot started, dispatching \<open>Quit\<close> ends the process with code 0
  while the teardown is suspended at its first \<open>await\<close>: the robot has not been asked to exit,
  and nothing that could happen afterwards changes that. No response is written.
\<close>

theorem C7_quit_exits_with_teardown_suspended:
  "exited (run stubWorld main_handler ([StartupResolved, Dispatch Quit] @ evs)) = Some 0
   \<and> teardown (run stubWorld main_handler ([StartupResolved, Dispatch Quit] @ evs)) = Suspended
   \<and> \<not> robotKilled (run stubWorld main_handler ([StartupResolved, Dispatch Quit] @ evs))
   \<and> outputs (run stubWorld main_handler ([StartupResolved, Dispatch Quit] @ evs)) = []"
proof -
  have q: "exited (run stubWorld main_handler [StartupResolved, Dispatch Quit]) = Some 0"
    "teardown (run stubWorld main_handler [StartupResolved, Dispatch Quit]) = Suspended"
    "\<not> robotKilled (run stubWorld main_handler [StartupResolved, Dispatch Quit])"
    "outputs (run stubWorld main_handler [StartupResolved, Dispatch Quit]) = []"
    by code_simp+
  have "run stubWorld main_handler ([StartupResolved, Dispatch Quit] @ evs)
      = run stubWorld (run stubWorld main_handler [StartupResolved, Dispatch Quit]) evs"
    by (rule run_append)
  also have "\<dots> = run stubWorld main_handler [StartupResolved, Dispatch Quit]"
    by (rule run_dead) (simp add: q(1))
  finally show ?thesis
    using q by simp
qed

text \<open>
  In a session driven by commands, settlements and flushed writes, the teardown never gets
  past its first \<open>await\<close>: the only call of it is the one in \<open>onQuit\<close>, which exits at once.
\<close>

lemma dispatch_quiet:
  assumes "quiet s" and "exited s = None"
  shows "quiet (dispatch w cmd s)"
proof (cases cmd)
  case (Position pos ms)
  with assms show ?thesis
    by (cases pos) (simp_all add: quiet_def respond_def onLoadPosition_def)
next
  case (Go ps)
  with assms show ?thesis
    by (auto simp: quiet_def onGo_def Let_def logDebug_def caught_def respond_def
          split: option.splits)
qed (use assms in \<open>auto simp: quiet_def respond_def onNewGame_def onStop_def onQuit_def
        logDebug_def\<close>)

lemma react_quiet:
  assumes "quiet s" and "exited s = None"
  shows "quiet (react w ev s)"
proof (cases ev)
  case (Dispatch cmd)
  with dispatch_quiet [OF assms] show ?thesis by simp
next
  case (Settle r)
  with assms show ?thesis
    by (auto simp: quiet_def releaseReady_def onGo_settled_def caught_def respond_def
          logDebug_def Let_def split: Settlement.splits option.splits sum.splits)
next
  case WriteDone
  with assms show ?thesis
    by (auto simp: quiet_def respond_def split: option.splits GoTask.splits)
next
  case StartupResolved
  with assms show ?thesis
    by (auto simp: quiet_def releaseInit_def)
next
  case TeardownResumes
  with assms show ?thesis
    by (auto simp: quiet_def)
next
  case RobotClosed
  with assms show ?thesis
    by (auto simp: quiet_def)
qed

lemma run_quiet: "quiet s \<Longrightarrow> quiet (run w s evs)"
proof (induction evs arbitrary: s)
  case Nil
  then show ?case by (simp add: run_Nil)
next
  case (Cons ev evs)
  have "quiet (step w s ev)"
  proof (cases "exited s")
    case None
    with react_quiet [OF Cons.prems None] show ?thesis by (simp add: step_def)
  next
    case (Some c)
    with Cons.prems show ?thesis by (simp add: step_def)
  qed
  with Cons.IH show ?case by (simp add: run_Cons)
qed

lemma teardown_never_finishes:
  "teardown (run w (newHandler n a opts url t) evs) \<noteq> Finished
   \<and> \<not> robotKilled (run w (newHandler n a opts url t) evs)"
proof -
  have "quiet (newHandler n a opts url t)"
    by (simp add: quiet_def newHandler_def)
  from run_quiet [OF this, of w evs] show ?thesis
    by (auto simp: quiet_def)
qed

subsection \<open>The answer to uci\<close>

lemma join_snoc: "join sep (ls @ [l]) = concat (map (\<lambda>t. t @ sep) ls) @ l"
proof (induction ls)
  case Nil
  then show ?case by simp
next
  case (Cons x ls)
  obtain y ys where "ls @ [l] = y # ys"
    by (cases ls) auto
  then have "join sep ((x # ls) @ [l]) = x @ sep @ join sep (ls @ [l])"
    by simp
  with Cons.IH show ?case
    by simp
qed

lemma lines_with_newlines:
  assumes "l \<noteq> []" and "last l \<noteq> CHR 0x0A"
  shows "withLine (join [CHR 0x0A] (ls @ [l])) = concat (map (\<lambda>t. t @ [CHR 0x0A]) (ls @ [l]))"
proof -
  have j: "join [CHR 0x0A] (ls @ [l]) = concat (map (\<lambda>t. t @ [CHR 0x0A]) ls) @ l"
    by (rule join_snoc)
  from assms have "last (concat (map (\<lambda>t. t @ [CHR 0x0A]) ls) @ l) = last l"
    by simp
  with assms j show ?thesis
    by (simp add: withLine_def)
qed

lemma serialize_id:
  "serializeGUICmd (Id (Id_Name n)) = ''id name '' @ n"
  "serializeGUICmd (Id (Id_Author a)) = ''id author '' @ a"
  "serializeGUICmd UCIOk = ''uciok''"
  by (simp_all add: serializeGUICmd_def serializeTokens_def)

text \<open>
  C8. For every result \<open>r\<close> of \<open>onInit\<close>, the dispatch of \<open>UCI\<close> resolves with the identity
  (name, then author), one \<open>Option\<close> per advertised option in the advertised order, and
  \<open>UCIOk\<close>; serialized, these are the lines \<open>id name <name>\<close>, \<open>id author <author>\<close>, the
  option lines and \<open>uciok\<close>, each ended by a newline in the chunk written. The proxy handler
  writes that chunk when \<open>UCI\<close> is dispatched after the startup has completed, and otherwise
  as soon as the startup completes, not before.
\<close>

theorem C8_uci_response_sequence:
  "protocolHandler r UCI
     = [Id (Id_Name (ir_name r)), Id (Id_Author (ir_author r))]
       @ map Option (ir_options r) @ [UCIOk]
   \<and> map serializeGUICmd (protocolHandler r UCI)
     = [''id name '' @ ir_name r, ''id author '' @ ir_author r]
       @ map (\<lambda>opt. serializeGUICmd (Option opt)) (ir_options r) @ [''uciok'']
   \<and> render (Responses (protocolHandler r UCI))
     = concat (map (\<lambda>l. l @ [CHR 0x0A]) (map serializeGUICmd (protocolHandler r UCI)))
   \<and> (exited s = None \<and> startupDone s \<longrightarrow>
        outputs (step w s (Dispatch UCI))
          = outputs s @ [Responses (protocolHandler (onInit_result s) UCI)])
   \<and> (exited s = None \<and> \<not> startupDone s \<and> pendingInit s = 0 \<longrightarrow>
        outputs (run w s [Dispatch UCI]) = outputs s
        \<and> outputs (run w s [Dispatch UCI, StartupResolved])
          = outputs s @ [Responses (protocolHandler (onInit_result s) UCI)])"
proof -
  have seq: "map serializeGUICmd (protocolHandler r UCI)
     = ([''id name '' @ ir_name r, ''id author '' @ ir_author r]
        @ map (\<lambda>opt. serializeGUICmd (Option opt)) (ir_options r)) @ [''uciok'']"
    by (simp add: serialize_id comp_def)
  have "render (Responses (protocolHandler r UCI))
     = withLine (join [CHR 0x0A] (([''id name '' @ ir_name r, ''id author '' @ ir_author r]
        @ map (\<lambda>opt. serializeGUICmd (Option opt)) (ir_options r)) @ [''uciok'']))"
    by (simp only: render.simps seq)
  also have "\<dots> = concat (map (\<lambda>l. l @ [CHR 0x0A])
       (([''id name '' @ ir_name r, ''id author '' @ ir_author r]
        @ map (\<lambda>opt. serializeGUICmd (Option opt)) (ir_options r)) @ [''uciok'']))"
    by (rule lines_with_newlines) simp_all
  finally have rend: "render (Responses (protocolHandler r UCI))
     = concat (map (\<lambda>l. l @ [CHR 0x0A]) (map serializeGUICmd (protocolHandler r UCI)))"
    by (simp only: seq)
  have now: "outputs (step w s (Dispatch UCI))
          = outputs s @ [Responses (protocolHandler (onInit_result s) UCI)]"
    if "exited s = None \<and> startupDone s"
    using that by (simp add: step_def respond_def onInit_result_def)
  have later: "outputs (run w s [Dispatch UCI]) = outputs s
        \<and> outputs (run w s [Dispatch UCI, StartupResolved])
          = outputs s @ [Responses (protocolHandler (onInit_result s) UCI)]"
    if "exited s = None \<and> \<not> startupDone s \<and> pendingInit s = 0"
    using that
    by (simp add: run_Cons run_Nil step_def releaseInit_def onInit_result_def)
  from seq rend now later show ?thesis
    by simp
qed

theorem C8_uci_response_sequence_witness:
  "exited (newHandler ''X'' ''Y'' [] ''http://localhost:8000/move'' 5000) = None
   \<and> \<not> startupDone (newHandler ''X'' ''Y'' [] ''http://localhost:8000/move'' 5000)
   \<and> pendingInit (newHandler ''X'' ''Y'' [] ''http://localhost:8000/move'' 5000) = 0
   \<and> map render (outputs (run stubWorld (newHandler ''X'' ''Y'' [] ''http://localhost:8000/move'' 5000)
          [Dispatch UCI, StartupResolved]))
       = [''id name X'' @ [CHR 0x0A] @ ''id author Y'' @ [CHR 0x0A] @ ''uciok'' @ [CHR 0x0A]]
   \<and> exited (run stubWorld (newHandler ''X'' ''Y'' [] ''http://localhost:8000/move'' 5000)
          [StartupResolved]) = None
   \<and> startupDone (run stubWorld (newHandler ''X'' ''Y'' [] ''http://localhost:8000/move'' 5000)
          [StartupResolved])
   \<and> map render (outputs (step stubWorld
          (run stubWorld (newHandler ''X'' ''Y'' [] ''http://localhost:8000/move'' 5000)
             [StartupResolved]) (Dispatch UCI)))
       = [''id name X'' @ [CHR 0x0A] @ ''id author Y'' @ [CHR 0x0A] @ ''uciok'' @ [CHR 0x0A]]"
proof -
  define h where "h = newHandler ''X'' ''Y'' [] ''http://localhost:8000/move'' 5000"
  define r where "r = \<lparr> ir_name = ''X'', ir_author = ''Y'', ir_options = [] \<rparr>"
  have f: "exited h = None" "\<not> startupDone h" "pendingInit h = 0" "outputs h = []"
    "onInit_result h = r"
    by (simp_all add: h_def r_def newHandler_def onInit_result_def)
  have g: "exited (run stubWorld h [StartupResolved]) = None"
    "startupDone (run stubWorld h [StartupResolved])"
    "outputs (run stubWorld h [StartupResolved]) = []"
    "onInit_result (run stubWorld h [StartupResolved]) = r"
    by (simp_all add: h_def r_def newHandler_def onInit_result_def run_Cons run_Nil step_def
          releaseInit_def)
  have t: "render (Responses (protocolHandler r UCI))
      = ''id name X'' @ [CHR 0x0A] @ ''id author Y'' @ [CHR 0x0A] @ ''uciok'' @ [CHR 0x0A]"
    using C8_uci_response_sequence [of r h stubWorld]
    by (simp add: r_def serialize_id)
  from C8_uci_response_sequence [of r h stubWorld] f t
  have 1: "map render (outputs (run stubWorld h [Dispatch UCI, StartupResolved]))
      = [''id name X'' @ [CHR 0x0A] @ ''id author Y'' @ [CHR 0x0A] @ ''uciok'' @ [CHR 0x0A]]"
    by simp
  from C8_uci_response_sequence [of r "run stubWorld h [StartupResolved]" stubWorld] g t
  have 2: "map render (outputs (step stubWorld (run stubWorld h [StartupResolved]) (Dispatch UCI)))
      = [''id name X'' @ [CHR 0x0A] @ ''id author Y'' @ [CHR 0x0A] @ ''uciok'' @ [CHR 0x0A]]"
    by simp
  from f g 1 2 show ?thesis
    unfolding h_def by simp
qed

end
